theory Spec2Isabelle
  imports Main "HOL-Library.Multiset"
begin

section \<open>Data model (src/types.ts)\<close>

text \<open>
  Field names are prefixed where two interfaces of the source share a name
  (\<open>id\<close>, \<open>name\<close>, \<open>team1\<close>, \<open>team2\<close>): \<open>Team.id\<close> is \<open>team_id\<close>,
  \<open>Match.id\<close> is \<open>match_id\<close>, \<open>Category.id\<close> is \<open>category_id\<close>, and the two
  scores of a \<open>MatchSet\<close> are \<open>set_team1\<close> and \<open>set_team2\<close>. A score
  \<open>number | null\<close> is an \<open>int option\<close>; the counters of a standings record
  are integers.
\<close>

record Team =
  team_id :: string
  team_name :: string
  playerIds :: "string list"

datatype MatchStatus = Pending | Finished

record MatchSet =
  set_team1 :: "int option"
  set_team2 :: "int option"

record Match =
  match_id :: string
  categoryId :: string
  team1 :: Team
  team2 :: Team
  sets :: "MatchSet list"
  winner :: "Team option"
  status :: MatchStatus
  date :: string

record Standings =
  team :: Team
  played :: int
  wins :: int
  losses :: int
  points :: int
  pointsFor :: int
  pointsAgainst :: int
  pointsDifference :: int

record Category =
  category_id :: string
  category_name :: string
  teamIds :: "string list"

section \<open>Numbers inside template literals\<close>

text \<open>
  \<open>`${n}`\<close> renders an integral number in decimal, without leading zeros and
  with a leading minus sign when it is negative.
\<close>

definition digit_char :: "nat \<Rightarrow> char" where
  "digit_char d = char_of (48 + d)"

fun show_nat :: "nat \<Rightarrow> string" where
  "show_nat n = (if n < 10 then [digit_char n]
                 else show_nat (n div 10) @ [digit_char (n mod 10)])"

declare show_nat.simps [simp del]

definition show_int :: "int \<Rightarrow> string" where
  "show_int k = (if k < 0 then CHR ''-'' # show_nat (nat (- k)) else show_nat (nat k))"

section \<open>generateRoundRobinMatches (src/utils/tournamentUtils.ts)\<close>

text \<open>
  The function reads two things from its environment, which the model takes
  as parameters:
  \<^item> \<open>now i j leg\<close> is the value of \<open>Date.now()\<close> read while the fixture of
    leg \<open>leg\<close> for the index pair \<open>(i, j)\<close> is built (each fixture reads the
    clock once);
  \<^item> \<open>shuffle\<close> is what \<open>matches.sort(() => Math.random() - 0.5)\<close> does to
    the array: the comparator is random, so the order is whatever the engine's
    sort produces; the only thing known is that the result is a rearrangement
    of the array.
\<close>

definition emptySets :: "MatchSet list" where
  "emptySets =
     [\<lparr>set_team1 = None, set_team2 = None\<rparr>,
      \<lparr>set_team1 = None, set_team2 = None\<rparr>,
      \<lparr>set_team1 = None, set_team2 = None\<rparr>]"

definition matchIdString :: "int \<Rightarrow> nat \<Rightarrow> nat \<Rightarrow> string \<Rightarrow> string" where
  "matchIdString t a b leg =
     ''match-'' @ show_int t @ ''-'' @ show_nat a @ ''-'' @ show_nat b @ ''-'' @ leg"

definition match1 ::
  "(nat \<Rightarrow> nat \<Rightarrow> nat \<Rightarrow> int) \<Rightarrow> Team list \<Rightarrow> Category \<Rightarrow> nat \<Rightarrow> nat \<Rightarrow> Match" where
  "match1 now teams category i j =
     \<lparr>match_id = matchIdString (now i j 1) i j ''1'',
      categoryId = category_id category,
      team1 = teams ! i,
      team2 = teams ! j,
      sets = emptySets,
      winner = None,
      status = Pending,
      date = ''''\<rparr>"

definition match2 ::
  "(nat \<Rightarrow> nat \<Rightarrow> nat \<Rightarrow> int) \<Rightarrow> Team list \<Rightarrow> Category \<Rightarrow> nat \<Rightarrow> nat \<Rightarrow> Match" where
  "match2 now teams category i j =
     \<lparr>match_id = matchIdString (now i j 2) j i ''2'',
      categoryId = category_id category,
      team1 = teams ! j,
      team2 = teams ! i,
      sets = emptySets,
      winner = None,
      status = Pending,
      date = ''''\<rparr>"

text \<open>The body of the inner loop: push the first leg, then the second if asked.\<close>

definition pairBody ::
  "(nat \<Rightarrow> nat \<Rightarrow> nat \<Rightarrow> int) \<Rightarrow> Team list \<Rightarrow> Category \<Rightarrow> bool \<Rightarrow> nat \<Rightarrow> nat
     \<Rightarrow> Match list \<Rightarrow> Match list" where
  "pairBody now teams category twoLegged i j matches =
     (let matches1 = matches @ [match1 now teams category i j]
      in if twoLegged then matches1 @ [match2 now teams category i j] else matches1)"

text \<open>
  The two \<open>for\<close> loops: \<open>i\<close> runs over \<open>0 .. length - 1\<close> and \<open>j\<close> over
  \<open>i + 1 .. length - 1\<close>, both upwards; inside the ranges \<open>teams ! i\<close> and
  \<open>teams ! j\<close> are in bounds.
\<close>

definition pairLoops ::
  "(nat \<Rightarrow> nat \<Rightarrow> nat \<Rightarrow> int) \<Rightarrow> Team list \<Rightarrow> Category \<Rightarrow> bool \<Rightarrow> Match list" where
  "pairLoops now teams category twoLegged =
     fold (\<lambda>i. fold (pairBody now teams category twoLegged i) [Suc i ..< length teams])
          [0 ..< length teams] []"

definition generateRoundRobinMatches ::
  "(nat \<Rightarrow> nat \<Rightarrow> nat \<Rightarrow> int) \<Rightarrow> (Match list \<Rightarrow> Match list)
     \<Rightarrow> Team list \<Rightarrow> Category \<Rightarrow> bool \<Rightarrow> Match list" where
  "generateRoundRobinMatches now shuffle teams category twoLegged =
     (if length teams < 2 then []
      else shuffle (pairLoops now teams category twoLegged))"

section \<open>calculateStandings (src/utils/tournamentUtils.ts)\<close>

text \<open>
  \<open>standingsMap\<close> is a JavaScript \<open>Map\<close>: its entries keep the order in which
  their keys were first inserted, a key inserted again keeps its place and
  takes the new value, and \<open>values()\<close> lists the values in that order. It is
  modelled as an association list.
\<close>

type_synonym StandingsMap = "(string \<times> Standings) list"

fun mapSet :: "string \<Rightarrow> Standings \<Rightarrow> StandingsMap \<Rightarrow> StandingsMap" where
  "mapSet k v [] = [(k, v)]"
| "mapSet k v ((k', v') # m) = (if k' = k then (k, v) # m else (k', v') # mapSet k v m)"

definition mapGet :: "StandingsMap \<Rightarrow> string \<Rightarrow> Standings option" where
  "mapGet m k = map_of m k"

text \<open>
  The values of the map are objects, and the callback changes them through
  the references \<open>winnerStandings\<close> and \<open>loserStandings\<close> that \<open>get\<close>
  returned. Every value is reachable through one key only, so an assignment
  through the reference got for key \<open>k\<close> is an update of the entry of \<open>k\<close>;
  when both references were got for the same key they are the same object,
  and both series of assignments land on the one entry.
\<close>

definition mutate :: "string \<Rightarrow> (Standings \<Rightarrow> Standings) \<Rightarrow> StandingsMap \<Rightarrow> StandingsMap" where
  "mutate k f m = map (\<lambda>(k', v). if k' = k then (k', f v) else (k', v)) m"

definition initialStandings :: "Team \<Rightarrow> Standings" where
  "initialStandings t =
     \<lparr>team = t, played = 0, wins = 0, losses = 0, points = 0,
      pointsFor = 0, pointsAgainst = 0, pointsDifference = 0\<rparr>"

definition newStandingsMap :: "Team list \<Rightarrow> StandingsMap" where
  "newStandingsMap teams = fold (\<lambda>t. mapSet (team_id t) (initialStandings t)) teams []"

definition inTeams :: "Team list \<Rightarrow> Team \<Rightarrow> bool" where
  "inTeams teams x = list_ex (\<lambda>t. team_id t = team_id x) teams"

definition relevantMatches :: "Team list \<Rightarrow> Match list \<Rightarrow> Match list" where
  "relevantMatches teams matches =
     filter (\<lambda>match. inTeams teams (team1 match) \<and> inTeams teams (team2 match)) matches"

text \<open>
  The callback of \<open>match.sets.forEach\<close>, on the four counters
  (team1SetWins, team2SetWins, team1TotalPoints, team2TotalPoints).
\<close>

definition tallySet :: "MatchSet \<Rightarrow> int \<times> int \<times> int \<times> int \<Rightarrow> int \<times> int \<times> int \<times> int" where
  "tallySet s acc =
     (case acc of (team1SetWins, team2SetWins, team1TotalPoints, team2TotalPoints) \<Rightarrow>
        (case set_team1 s of
           None \<Rightarrow> acc
         | Some a \<Rightarrow>
            (case set_team2 s of
               None \<Rightarrow> acc
             | Some b \<Rightarrow>
                (if a > b then team1SetWins + 1 else team1SetWins,
                 if a > b then team2SetWins else if b > a then team2SetWins + 1 else team2SetWins,
                 team1TotalPoints + a,
                 team2TotalPoints + b))))"

definition tallySets :: "MatchSet list \<Rightarrow> int \<times> int \<times> int \<times> int" where
  "tallySets ss = fold tallySet ss (0, 0, 0, 0)"

text \<open>
  The part of the \<open>relevantMatches.forEach\<close> callback after its two early
  returns. The closing \<open>standingsMap.set\<close> calls store the objects the map
  already holds under the same keys, which changes nothing.
\<close>

definition creditMatch :: "Match \<Rightarrow> string \<Rightarrow> string \<Rightarrow> StandingsMap \<Rightarrow> StandingsMap" where
  "creditMatch match winnerId loserId standingsMap =
     (case tallySets (sets match) of
        (team1SetWins, team2SetWins, team1TotalPoints, team2TotalPoints) \<Rightarrow>
     let isTeam1Winner = (team_id (team1 match) = winnerId);
         m1 = mutate winnerId (\<lambda>s. s\<lparr>played := played s + 1\<rparr>) standingsMap;
         m2 = mutate winnerId (\<lambda>s. s\<lparr>wins := wins s + 1\<rparr>) m1;
         m3 = mutate loserId (\<lambda>s. s\<lparr>played := played s + 1\<rparr>) m2;
         m4 = mutate loserId (\<lambda>s. s\<lparr>losses := losses s + 1\<rparr>) m3;
         winnerSets = max team1SetWins team2SetWins;
         loserSets = min team1SetWins team2SetWins;
         m5 = (if winnerSets = 2 \<and> loserSets = 0
               then mutate winnerId (\<lambda>s. s\<lparr>points := points s + 3\<rparr>) m4
               else if winnerSets = 2 \<and> loserSets = 1
               then mutate loserId (\<lambda>s. s\<lparr>points := points s + 1\<rparr>)
                      (mutate winnerId (\<lambda>s. s\<lparr>points := points s + 2\<rparr>) m4)
               else m4);
         m6 = (if isTeam1Winner
               then mutate loserId (\<lambda>s. s\<lparr>pointsAgainst := pointsAgainst s + team1TotalPoints\<rparr>)
                      (mutate loserId (\<lambda>s. s\<lparr>pointsFor := pointsFor s + team2TotalPoints\<rparr>)
                        (mutate winnerId (\<lambda>s. s\<lparr>pointsAgainst := pointsAgainst s + team2TotalPoints\<rparr>)
                          (mutate winnerId (\<lambda>s. s\<lparr>pointsFor := pointsFor s + team1TotalPoints\<rparr>) m5)))
               else mutate loserId (\<lambda>s. s\<lparr>pointsAgainst := pointsAgainst s + team2TotalPoints\<rparr>)
                      (mutate loserId (\<lambda>s. s\<lparr>pointsFor := pointsFor s + team1TotalPoints\<rparr>)
                        (mutate winnerId (\<lambda>s. s\<lparr>pointsAgainst := pointsAgainst s + team1TotalPoints\<rparr>)
                          (mutate winnerId (\<lambda>s. s\<lparr>pointsFor := pointsFor s + team2TotalPoints\<rparr>) m5))));
         m7 = mutate winnerId (\<lambda>s. s\<lparr>pointsDifference := pointsFor s - pointsAgainst s\<rparr>) m6;
         m8 = mutate loserId (\<lambda>s. s\<lparr>pointsDifference := pointsFor s - pointsAgainst s\<rparr>) m7
     in m8)"

text \<open>
  The loser's id as the callback computes it: team2's id when the winner's id
  is team1's, and team1's id in every other case.
\<close>

definition loserIdOf :: "Match \<Rightarrow> string \<Rightarrow> string" where
  "loserIdOf match winnerId =
     (if winnerId = team_id (team1 match) then team_id (team2 match) else team_id (team1 match))"

text \<open>
  The callback of \<open>relevantMatches.forEach\<close>, with its two early returns:
  a match that is not Finished or has no winner, and a winner or loser whose
  id is not a key of the map.
\<close>

definition processMatch :: "Match \<Rightarrow> StandingsMap \<Rightarrow> StandingsMap" where
  "processMatch match standingsMap =
     (if status match \<noteq> Finished then standingsMap
      else case winner match of
        None \<Rightarrow> standingsMap
      | Some w \<Rightarrow>
          let winnerId = team_id w;
              loserId = loserIdOf match winnerId
          in if mapGet standingsMap winnerId = None \<or> mapGet standingsMap loserId = None
             then standingsMap
             else creditMatch match winnerId loserId standingsMap)"

text \<open>The comparator handed to \<open>standings.sort\<close>.\<close>

definition compareStandings :: "Standings \<Rightarrow> Standings \<Rightarrow> int" where
  "compareStandings a b =
     (if points b \<noteq> points a then points b - points a
      else if wins b \<noteq> wins a then wins b - wins a
      else if pointsDifference b \<noteq> pointsDifference a
      then pointsDifference b - pointsDifference a
      else pointsFor b - pointsFor a)"

text \<open>
  \<open>Array.prototype.sort\<close> with a comparator: the sort is stable, so with a
  comparator that orders the elements consistently the result is the one
  arrangement that is ordered by the comparator and keeps elements that
  compare equal in their original order. Insertion from the right computes it.
\<close>

fun insertSorted :: "('a \<Rightarrow> 'a \<Rightarrow> int) \<Rightarrow> 'a \<Rightarrow> 'a list \<Rightarrow> 'a list" where
  "insertSorted cmp x [] = [x]"
| "insertSorted cmp x (y # ys) =
     (if cmp x y \<le> 0 then x # y # ys else y # insertSorted cmp x ys)"

definition sortBy :: "('a \<Rightarrow> 'a \<Rightarrow> int) \<Rightarrow> 'a list \<Rightarrow> 'a list" where
  "sortBy cmp xs = foldr (insertSorted cmp) xs []"

text \<open>The map after the \<open>forEach\<close> over the relevant matches.\<close>

definition standingsMapAfter :: "Team list \<Rightarrow> Match list \<Rightarrow> StandingsMap" where
  "standingsMapAfter teams matches =
     fold processMatch (relevantMatches teams matches) (newStandingsMap teams)"

definition calculateStandings :: "Team list \<Rightarrow> Match list \<Rightarrow> Standings list" where
  "calculateStandings teams matches =
     sortBy compareStandings (map snd (standingsMapAfter teams matches))"

section \<open>handleUpdateMatch (src/App.tsx)\<close>

text \<open>
  \<open>newMatchData\<close> is a \<open>Partial<Pick<Match, 'sets' | 'date'>>\<close>: each of the
  two fields may be absent, and the spread \<open>{ ...match, ...newMatchData }\<close>
  takes a field from \<open>newMatchData\<close> when it is there.
\<close>

record MatchUpdate =
  new_sets :: "MatchSet list option"
  new_date :: "string option"

text \<open>The callback of \<open>updatedMatch.sets.forEach\<close>, on the two counters.\<close>

definition countSetWin :: "MatchSet \<Rightarrow> int \<times> int \<Rightarrow> int \<times> int" where
  "countSetWin s acc =
     (case acc of (team1SetWins, team2SetWins) \<Rightarrow>
        (case set_team1 s of
           None \<Rightarrow> acc
         | Some a \<Rightarrow>
            (case set_team2 s of
               None \<Rightarrow> acc
             | Some b \<Rightarrow>
                (if a > b then team1SetWins + 1 else team1SetWins,
                 if b > a then team2SetWins + 1 else team2SetWins))))"

text \<open>
  The function mapped over the matches, for the match with the given id. The
  closing block of the source about the third set has an empty body.
\<close>

definition updateMatch :: "MatchUpdate \<Rightarrow> Match \<Rightarrow> Match" where
  "updateMatch newMatchData match =
     (let updatedMatch =
            match\<lparr>sets := (case new_sets newMatchData of Some ss \<Rightarrow> ss | None \<Rightarrow> sets match),
                  date := (case new_date newMatchData of Some d \<Rightarrow> d | None \<Rightarrow> date match)\<rparr>
      in case fold countSetWin (sets updatedMatch) (0, 0) of
        (team1SetWins, team2SetWins) \<Rightarrow>
          let updatedMatch1 =
                updatedMatch\<lparr>winner :=
                  (if team1SetWins \<ge> 2 then Some (team1 updatedMatch)
                   else if team2SetWins \<ge> 2 then Some (team2 updatedMatch)
                   else None)\<rparr>
          in updatedMatch1\<lparr>status :=
               (if winner updatedMatch1 \<noteq> None then Finished else Pending)\<rparr>)"

definition handleUpdateMatch :: "string \<Rightarrow> MatchUpdate \<Rightarrow> Match list \<Rightarrow> Match list" where
  "handleUpdateMatch matchId newMatchData prevMatches =
     map (\<lambda>match. if match_id match \<noteq> matchId then match else updateMatch newMatchData match)
         prevMatches"

section \<open>Vocabulary of the claims\<close>

text \<open>The index pairs \<open>(i, j)\<close> with \<open>i < j < n\<close>, in the order the loops visit them.\<close>

definition indexPairs :: "nat \<Rightarrow> (nat \<times> nat) list" where
  "indexPairs n = concat (map (\<lambda>i. map (Pair i) [Suc i ..< n]) [0 ..< n])"

definition fixture :: "Match \<Rightarrow> Team \<times> Team" where
  "fixture m = (team1 m, team2 m)"

text \<open>The fixtures one pass through the inner loop body pushes for an index pair.\<close>

definition legs :: "(nat \<Rightarrow> nat \<Rightarrow> nat \<Rightarrow> int) \<Rightarrow> Team list \<Rightarrow> Category \<Rightarrow> bool \<Rightarrow> nat \<times> nat \<Rightarrow> Match list" where
  "legs now teams category twoLegged p =
     (if twoLegged then [match1 now teams category (fst p) (snd p), match2 now teams category (fst p) (snd p)]
      else [match1 now teams category (fst p) (snd p)])"

text \<open>The teams at an index pair, in loop order and swapped.\<close>

definition pairTeams :: "Team list \<Rightarrow> nat \<times> nat \<Rightarrow> Team \<times> Team" where
  "pairTeams teams p = (teams ! fst p, teams ! snd p)"

definition pairTeamsSwapped :: "Team list \<Rightarrow> nat \<times> nat \<Rightarrow> Team \<times> Team" where
  "pairTeamsSwapped teams p = (teams ! snd p, teams ! fst p)"


text \<open>
  The number of sets a side has won, and the points a side has scored, over
  the sets whose two scores are both present.
\<close>

definition bothPresent :: "MatchSet \<Rightarrow> bool" where
  "bothPresent s = (set_team1 s \<noteq> None \<and> set_team2 s \<noteq> None)"

definition score1 :: "MatchSet \<Rightarrow> int" where
  "score1 s = (case set_team1 s of Some a \<Rightarrow> a | None \<Rightarrow> 0)"

definition score2 :: "MatchSet \<Rightarrow> int" where
  "score2 s = (case set_team2 s of Some b \<Rightarrow> b | None \<Rightarrow> 0)"

definition setsWon1 :: "MatchSet list \<Rightarrow> int" where
  "setsWon1 ss = int (length (filter (\<lambda>s. bothPresent s \<and> score1 s > score2 s) ss))"

definition setsWon2 :: "MatchSet list \<Rightarrow> int" where
  "setsWon2 ss = int (length (filter (\<lambda>s. bothPresent s \<and> score2 s > score1 s) ss))"

definition total1 :: "MatchSet list \<Rightarrow> int" where
  "total1 ss = sum_list (map score1 (filter bothPresent ss))"

definition total2 :: "MatchSet list \<Rightarrow> int" where
  "total2 ss = sum_list (map score2 (filter bothPresent ss))"

text \<open>
  A match whose status and winner agree with its sets: Finished exactly when
  there is a winner, a winner being one of the two teams with at least two
  sets won, and no winner only when neither side has two.
\<close>

definition resultConsistent :: "Match \<Rightarrow> bool" where
  "resultConsistent m =
     ((status m = Finished) = (winner m \<noteq> None)
      \<and> (case winner m of
            None \<Rightarrow> setsWon1 (sets m) < 2 \<and> setsWon2 (sets m) < 2
          | Some t \<Rightarrow> (t = team1 m \<and> 2 \<le> setsWon1 (sets m))
                     \<or> (t = team2 m \<and> 2 \<le> setsWon2 (sets m))))"

text \<open>
  One record ranks no later than another: more points; or equal points and
  more wins; or those equal and a larger points difference; or those equal
  too and at least as many points for.
\<close>

definition rankedBefore :: "Standings \<Rightarrow> Standings \<Rightarrow> bool" where
  "rankedBefore a b =
     (points a > points b
      \<or> (points a = points b
          \<and> (wins a > wins b
              \<or> (wins a = wins b
                  \<and> (pointsDifference a > pointsDifference b
                      \<or> (pointsDifference a = pointsDifference b
                          \<and> pointsFor a \<ge> pointsFor b))))))"

text \<open>
  A match that is counted: both teams and the winner have ids in the team
  list and the status is Finished. The loser of a counted match is one of its
  two teams, so its id is in the list as well.
\<close>

definition counted :: "Team list \<Rightarrow> Match \<Rightarrow> bool" where
  "counted teams m =
     (inTeams teams (team1 m) \<and> inTeams teams (team2 m) \<and> status m = Finished
      \<and> (case winner m of None \<Rightarrow> False | Some w \<Rightarrow> inTeams teams w))"

text \<open>The ids the callback charges as winner and as loser of a match.\<close>

definition chargedAsWinner :: "Match \<Rightarrow> string \<Rightarrow> bool" where
  "chargedAsWinner m x = (case winner m of None \<Rightarrow> False | Some w \<Rightarrow> team_id w = x)"

definition chargedAsLoser :: "Match \<Rightarrow> string \<Rightarrow> bool" where
  "chargedAsLoser m x =
     (case winner m of None \<Rightarrow> False | Some w \<Rightarrow> loserIdOf m (team_id w) = x)"

text \<open>
  The set tally of a match, larger count first, and the league points it is
  worth to the winner and to the loser.
\<close>

definition setTally :: "Match \<Rightarrow> int \<times> int" where
  "setTally m =
     (max (setsWon1 (sets m)) (setsWon2 (sets m)), min (setsWon1 (sets m)) (setsWon2 (sets m)))"

definition winnerAward :: "Match \<Rightarrow> int" where
  "winnerAward m = (if setTally m = (2, 0) then 3 else if setTally m = (2, 1) then 2 else 0)"

definition loserAward :: "Match \<Rightarrow> int" where
  "loserAward m = (if setTally m = (2, 1) then 1 else 0)"

text \<open>The league points a match is worth to the record of id \<open>x\<close>.\<close>

definition pointsAwarded :: "string \<Rightarrow> Match \<Rightarrow> int" where
  "pointsAwarded x m =
     (if chargedAsWinner m x then winnerAward m else 0)
     + (if chargedAsLoser m x then loserAward m else 0)"

text \<open>
  The set points the callback adds to the record of id \<open>x\<close>: the winner's
  record receives team1's totals when the winner's id is team1's id and
  team2's totals otherwise, the loser's record the other side's.
\<close>

definition creditedFor :: "string \<Rightarrow> Match \<Rightarrow> int" where
  "creditedFor x m =
     (if chargedAsWinner m x
      then (if chargedAsWinner m (team_id (team1 m)) then total1 (sets m) else total2 (sets m))
      else 0)
     + (if chargedAsLoser m x
        then (if chargedAsWinner m (team_id (team1 m)) then total2 (sets m) else total1 (sets m))
        else 0)"

definition creditedAgainst :: "string \<Rightarrow> Match \<Rightarrow> int" where
  "creditedAgainst x m =
     (if chargedAsWinner m x
      then (if chargedAsWinner m (team_id (team1 m)) then total2 (sets m) else total1 (sets m))
      else 0)
     + (if chargedAsLoser m x
        then (if chargedAsWinner m (team_id (team1 m)) then total1 (sets m) else total2 (sets m))
        else 0)"

text \<open>
  The set points a team of id \<open>x\<close> scored and conceded in a match, by the side
  it played on.
\<close>

definition scoredBy :: "string \<Rightarrow> Match \<Rightarrow> int" where
  "scoredBy x m =
     (if team_id (team1 m) = x then total1 (sets m) else 0)
     + (if team_id (team2 m) = x then total2 (sets m) else 0)"

definition concededBy :: "string \<Rightarrow> Match \<Rightarrow> int" where
  "concededBy x m =
     (if team_id (team1 m) = x then total2 (sets m) else 0)
     + (if team_id (team2 m) = x then total1 (sets m) else 0)"

definition winnerPlayed :: "Match \<Rightarrow> bool" where
  "winnerPlayed m =
     (chargedAsWinner m (team_id (team1 m)) \<or> chargedAsWinner m (team_id (team2 m)))"

text \<open>
  The callback's two early returns, against a given map: the match is credited
  when it is Finished, has a winner, and both the winner's and the loser's id
  are keys of the map.
\<close>

definition countedIn :: "StandingsMap \<Rightarrow> Match \<Rightarrow> bool" where
  "countedIn sm m =
     (status m = Finished
      \<and> (case winner m of
            None \<Rightarrow> False
          | Some w \<Rightarrow> mapGet sm (team_id w) \<noteq> None
                       \<and> mapGet sm (loserIdOf m (team_id w)) \<noteq> None))"

text \<open>
  The record of the team of id \<open>x\<close> in a list of standings, as a reader of
  the returned table finds it: the first record whose team has that id.
\<close>

definition recordOf :: "Standings list \<Rightarrow> string \<Rightarrow> Standings option" where
  "recordOf rs x = find (\<lambda>r. team_id (team r) = x) rs"

section \<open>Example inputs\<close>

definition teamA :: Team where
  "teamA = \<lparr>team_id = ''tA'', team_name = ''A'', playerIds = []\<rparr>"

definition teamB :: Team where
  "teamB = \<lparr>team_id = ''tB'', team_name = ''B'', playerIds = []\<rparr>"

definition teamC :: Team where
  "teamC = \<lparr>team_id = ''tC'', team_name = ''C'', playerIds = []\<rparr>"

definition teamD :: Team where
  "teamD = \<lparr>team_id = ''tD'', team_name = ''D'', playerIds = []\<rparr>"

definition categoryX :: Category where
  "categoryX = \<lparr>category_id = ''cX'', category_name = ''X'', teamIds = [''tA'', ''tB'', ''tC'']\<rparr>"

definition clockA :: "nat \<Rightarrow> nat \<Rightarrow> nat \<Rightarrow> int" where
  "clockA i j leg = 7"



definition exampleMatch :: Match where
  "exampleMatch =
     \<lparr>match_id = ''m1'', categoryId = ''cX'', team1 = teamA, team2 = teamB,
      sets = [\<lparr>set_team1 = Some 18, set_team2 = Some 10\<rparr>,
              \<lparr>set_team1 = Some 10, set_team2 = Some 18\<rparr>,
              \<lparr>set_team1 = Some 11, set_team2 = Some 5\<rparr>],
      winner = Some teamA, status = Finished, date = ''''\<rparr>"

definition pendingMatch :: Match where
  "pendingMatch =
     \<lparr>match_id = ''m2'', categoryId = ''cX'', team1 = teamA, team2 = teamB,
      sets = [\<lparr>set_team1 = Some 18, set_team2 = Some 10\<rparr>,
              \<lparr>set_team1 = None, set_team2 = None\<rparr>,
              \<lparr>set_team1 = None, set_team2 = None\<rparr>],
      winner = None, status = Pending, date = ''''\<rparr>"

definition straightSets :: MatchUpdate where
  "straightSets =
     \<lparr>new_sets = Some [\<lparr>set_team1 = Some 18, set_team2 = Some 10\<rparr>,
                       \<lparr>set_team1 = Some 18, set_team2 = Some 12\<rparr>,
                       \<lparr>set_team1 = None, set_team2 = None\<rparr>],
      new_date = None\<rparr>"

definition orphanWinnerMatch :: Match where
  "orphanWinnerMatch =
     \<lparr>match_id = ''m3'', categoryId = ''cX'', team1 = teamA, team2 = teamB,
      sets = [\<lparr>set_team1 = Some 18, set_team2 = Some 10\<rparr>,
              \<lparr>set_team1 = Some 18, set_team2 = Some 5\<rparr>,
              \<lparr>set_team1 = None, set_team2 = None\<rparr>],
      winner = Some teamC, status = Finished, date = ''''\<rparr>"

definition strangerWinnerMatch :: Match where
  "strangerWinnerMatch =
     \<lparr>match_id = ''m4'', categoryId = ''cX'', team1 = teamA, team2 = teamB,
      sets = [\<lparr>set_team1 = Some 18, set_team2 = Some 10\<rparr>,
              \<lparr>set_team1 = Some 18, set_team2 = Some 5\<rparr>,
              \<lparr>set_team1 = None, set_team2 = None\<rparr>],
      winner = Some teamD, status = Finished, date = ''''\<rparr>"

text \<open>A match of team A against a team of the same id, won 2 sets to 1.\<close>

definition sameIdMatch :: Match where
  "sameIdMatch = exampleMatch\<lparr>match_id := ''m5'', team2 := teamA\<rparr>"

text \<open>
  The records of teams A and B after A has beaten B by 18-10, 10-18, 11-5.
\<close>

definition exampleRecordA :: Standings where
  "exampleRecordA =
     \<lparr>team = teamA, played = 1, wins = 1, losses = 0, points = 2,
      pointsFor = 39, pointsAgainst = 33, pointsDifference = 6\<rparr>"

definition exampleRecordB :: Standings where
  "exampleRecordB =
     \<lparr>team = teamB, played = 1, wins = 0, losses = 1, points = 1,
      pointsFor = 33, pointsAgainst = 39, pointsDifference = - 6\<rparr>"

text \<open>
  The records of teams C and B after the match between A and B that names C
  as its winner.
\<close>

definition orphanRecordC :: Standings where
  "orphanRecordC =
     \<lparr>team = teamC, played = 1, wins = 1, losses = 0, points = 3,
      pointsFor = 15, pointsAgainst = 36, pointsDifference = - 21\<rparr>"

definition orphanRecordB :: Standings where
  "orphanRecordB =
     \<lparr>team = teamB, played = 0, wins = 0, losses = 0, points = 0,
      pointsFor = 0, pointsAgainst = 0, pointsDifference = 0\<rparr>"

text \<open>The one record of the result for team A and that match.\<close>

definition sameIdRecord :: Standings where
  "sameIdRecord =
     \<lparr>team = teamA, played = 2, wins = 1, losses = 1, points = 3,
      pointsFor = 72, pointsAgainst = 72, pointsDifference = 0\<rparr>"

section \<open>The generator's loops\<close>

lemma fold_push: "fold (\<lambda>x acc. acc @ f x) xs acc = acc @ concat (map f xs)"
  by (induction xs arbitrary: acc) simp_all

lemma pairBody_push: "pairBody now teams category twoLegged i = (\<lambda>j acc. acc @ legs now teams category twoLegged (i, j))"
  by (rule ext, rule ext) (simp add: pairBody_def legs_def Let_def)

lemma concat_map_concat:
  "concat (map f (concat xss)) = concat (map (\<lambda>xs. concat (map f xs)) xss)"
  by (induction xss) simp_all

lemma pairLoops_concat:
  "pairLoops now teams category twoLegged =
     concat (map (legs now teams category twoLegged) (indexPairs (length teams)))"
proof -
  have inner: "\<And>i. fold (pairBody now teams category twoLegged i) [Suc i ..< length teams]
      = (\<lambda>acc. acc @ concat (map (legs now teams category twoLegged) (map (Pair i) [Suc i ..< length teams])))"
    by (rule ext) (simp add: pairBody_push fold_push comp_def)
  show ?thesis
    unfolding pairLoops_def indexPairs_def inner
    by (simp add: fold_push concat_map_concat comp_def)
qed

lemma set_indexPairs: "set (indexPairs n) = {(i, j). i < j \<and> j < n}"
  by (fastforce simp: indexPairs_def)

lemma distinct_rows:
  "distinct xs \<Longrightarrow> (\<And>i. distinct (f i)) \<Longrightarrow> distinct (concat (map (\<lambda>i. map (Pair i) (f i)) xs))"
  by (induction xs) (auto simp: distinct_map inj_on_def)

lemma distinct_indexPairs: "distinct (indexPairs n)"
  unfolding indexPairs_def
  by (rule distinct_rows) simp_all

section \<open>Match identifiers\<close>

lemma digit_char_not_dash: "d < 10 \<Longrightarrow> digit_char d \<noteq> CHR ''-''"
proof
  assume d: "d < 10" and e: "digit_char d = CHR ''-''"
  from e have "of_char (digit_char d) = (of_char (CHR ''-'') :: nat)" by simp
  then have "(48 + d) mod 256 = 45" by (simp add: digit_char_def)
  with d show False by simp
qed

lemma digit_char_inj: "a < 10 \<Longrightarrow> b < 10 \<Longrightarrow> digit_char a = digit_char b \<Longrightarrow> a = b"
proof -
  assume a: "a < 10" and b: "b < 10" and e: "digit_char a = digit_char b"
  from e have "(of_char (digit_char a) :: nat) = of_char (digit_char b)" by simp
  then have "(48 + a) mod 256 = (48 + b) mod 256" by (simp add: digit_char_def)
  with a b show "a = b" by simp
qed

lemma show_nat_not_Nil: "show_nat n \<noteq> []"
  by (subst show_nat.simps) simp

lemma dash_notin_show_nat: "CHR ''-'' \<notin> set (show_nat n)"
proof (induction n rule: show_nat.induct)
  case (1 n)
  show ?case
  proof (cases "n < 10")
    case True
    then show ?thesis
      using digit_char_not_dash [of n] by (subst show_nat.simps) auto
  next
    case False
    then show ?thesis
      using 1 digit_char_not_dash [of "n mod 10"] by (subst show_nat.simps) auto
  qed
qed

lemma show_nat_inj: "show_nat n = show_nat m \<Longrightarrow> n = m"
proof (induction n arbitrary: m rule: show_nat.induct)
  case (1 n)
  show ?case
  proof (cases "n < 10")
    case n: True
    show ?thesis
    proof (cases "m < 10")
      case True
      with n "1.prems" show ?thesis
        by (simp add: show_nat.simps [of n] show_nat.simps [of m] digit_char_inj)
    next
      case False
      with n "1.prems" show_nat_not_Nil [of "m div 10"] show ?thesis
        by (simp add: show_nat.simps [of n] show_nat.simps [of m])
    qed
  next
    case n: False
    show ?thesis
    proof (cases "m < 10")
      case True
      with n "1.prems" show_nat_not_Nil [of "n div 10"] show ?thesis
        by (simp add: show_nat.simps [of n] show_nat.simps [of m])
    next
      case False
      with n "1.prems" have e: "show_nat (n div 10) = show_nat (m div 10)"
        and d: "digit_char (n mod 10) = digit_char (m mod 10)"
        by (simp_all add: show_nat.simps [of n] show_nat.simps [of m])
      from "1.IH" [OF n e] have "n div 10 = m div 10" .
      moreover from d have "n mod 10 = m mod 10" by (simp add: digit_char_inj)
      ultimately show ?thesis by (metis div_mult_mod_eq)
    qed
  qed
qed

lemma split_last_sep:
  "c \<notin> set xs \<Longrightarrow> c \<notin> set ys \<Longrightarrow> r @ c # xs = r' @ c # ys \<Longrightarrow> r = r' \<and> xs = ys"
  by (auto simp: append_eq_append_conv2 Cons_eq_append_conv append_eq_Cons_conv)

lemma matchIdString_inj:
  assumes "CHR ''-'' \<notin> set l" "CHR ''-'' \<notin> set l'"
    and "matchIdString t a b l = matchIdString t' a' b' l'"
  shows "a = a' \<and> b = b' \<and> l = l'"
proof -
  let ?p = "\<lambda>t a b. ''match-'' @ show_int t @ ''-'' @ show_nat a @ ''-'' @ show_nat b"
  let ?q = "\<lambda>t a. ''match-'' @ show_int t @ ''-'' @ show_nat a"
  let ?r = "\<lambda>t. ''match-'' @ show_int t"
  from assms(3) have "?p t a b @ CHR ''-'' # l = ?p t' a' b' @ CHR ''-'' # l'"
    by (simp add: matchIdString_def)
  from split_last_sep [OF assms(1,2) this] have l: "l = l'" and p: "?p t a b = ?p t' a' b'"
    by simp_all
  from p have "?q t a @ CHR ''-'' # show_nat b = ?q t' a' @ CHR ''-'' # show_nat b'"
    by simp
  from split_last_sep [OF dash_notin_show_nat dash_notin_show_nat this]
  have b: "show_nat b = show_nat b'" and q: "?q t a = ?q t' a'" by simp_all
  from q have "?r t @ CHR ''-'' # show_nat a = ?r t' @ CHR ''-'' # show_nat a'"
    by simp
  from split_last_sep [OF dash_notin_show_nat dash_notin_show_nat this]
  have a: "show_nat a = show_nat a'" by simp
  from a b l show ?thesis by (simp add: show_nat_inj)
qed

section \<open>Fixture counts\<close>

lemma two_length_indexPairs: "2 * length (indexPairs n) = n * (n - 1)"
proof -
  have "length (indexPairs n) = (\<Sum>i<n. n - Suc i)"
    by (simp add: indexPairs_def length_concat comp_def interv_sum_list_conv_sum_set_nat atLeast0LessThan)
  also have "\<dots> = (\<Sum>i<n. i)"
    by (rule sum.nat_diff_reindex)
  finally have "2 * length (indexPairs n) = 2 * (\<Sum>i<n. i)" by simp
  also have "\<dots> = n * (n - 1)"
    by (induction n) (auto simp: algebra_simps)
  finally show ?thesis .
qed

lemma length_concat_legs:
  "length (concat (map (legs now teams category twoLegged) ps)) =
     (if twoLegged then 2 * length ps else length ps)"
  by (induction ps) (simp_all add: legs_def)

lemma fixtures_single:
  "map fixture (concat (map (legs now teams category False) ps)) = map (pairTeams teams) ps"
  by (induction ps) (simp_all add: legs_def fixture_def match1_def pairTeams_def)

lemma fixtures_double:
  "mset (map fixture (concat (map (legs now teams category True) ps))) =
     mset (map (pairTeams teams) ps) + mset (map (pairTeamsSwapped teams) ps)"
  by (induction ps)
     (simp_all add: legs_def fixture_def match1_def match2_def pairTeams_def pairTeamsSwapped_def)

lemma indexPairs_small: "n < 2 \<Longrightarrow> indexPairs n = []"
proof -
  assume "n < 2"
  then have "n = 0 \<or> n = Suc 0" by arith
  then show ?thesis by (auto simp: indexPairs_def)
qed

lemma generate_mset:
  assumes perm: "\<forall>ms. mset (shuffle ms) = mset ms"
  shows "mset (generateRoundRobinMatches now shuffle teams category twoLegged) =
         mset (concat (map (legs now teams category twoLegged) (indexPairs (length teams))))"
proof (cases "length teams < 2")
  case True
  then show ?thesis
    by (simp add: generateRoundRobinMatches_def indexPairs_small)
next
  case False
  then have "generateRoundRobinMatches now shuffle teams category twoLegged =
      shuffle (pairLoops now teams category twoLegged)"
    by (simp add: generateRoundRobinMatches_def)
  with perm show ?thesis
    by (simp add: pairLoops_concat)
qed

text \<open>
  Claim C1. For a list of \<open>N\<close> teams, with the shuffle a rearrangement of
  its argument: the single-leg schedule has \<open>N * (N - 1) div 2\<close> matches, and
  its fixtures (team1, team2) are, as a multiset, the pairs
  \<open>(teams ! i, teams ! j)\<close> over the index pairs \<open>i < j < N\<close>, one each; the
  two-legged schedule has \<open>N * (N - 1)\<close> matches, its fixtures being those pairs
  together with the same pairs swapped; and for \<open>N < 2\<close> the result is the
  empty list. The index pairs are listed without repetition and are exactly the
  pairs \<open>i < j < N\<close>.
\<close>

theorem generateRoundRobinMatches_fixtures:
  assumes perm: "\<forall>ms. mset (shuffle ms) = mset ms"
  shows "(length (generateRoundRobinMatches now shuffle teams category False)
            = length teams * (length teams - 1) div 2
        \<and> mset (map fixture (generateRoundRobinMatches now shuffle teams category False))
            = mset (map (pairTeams teams) (indexPairs (length teams))))
      \<and> (length (generateRoundRobinMatches now shuffle teams category True)
            = length teams * (length teams - 1)
        \<and> mset (map fixture (generateRoundRobinMatches now shuffle teams category True))
            = mset (map (pairTeams teams) (indexPairs (length teams)))
              + mset (map (pairTeamsSwapped teams) (indexPairs (length teams))))
      \<and> (length teams < 2 \<longrightarrow> generateRoundRobinMatches now shuffle teams category twoLegged = [])
      \<and> distinct (indexPairs (length teams))
      \<and> set (indexPairs (length teams)) = {(i, j). i < j \<and> j < length teams}"
proof -
  let ?n = "length teams"
  let ?gen = "generateRoundRobinMatches now shuffle teams category"
  let ?all = "\<lambda>b. concat (map (legs now teams category b) (indexPairs ?n))"
  have len: "length (?gen b) = length (?all b)" for b
    using generate_mset [OF perm, of now teams category b] by (metis size_mset)
  have fx: "mset (map fixture (?gen b)) = mset (map fixture (?all b))" for b
    using generate_mset [OF perm, of now teams category b] by (metis mset_map)
  have l1: "length (?gen False) = ?n * (?n - 1) div 2"
    using two_length_indexPairs [of ?n] by (simp add: len length_concat_legs)
  have l2: "length (?gen True) = ?n * (?n - 1)"
    using two_length_indexPairs [of ?n] by (simp add: len length_concat_legs)
  have f1: "mset (map fixture (?gen False)) = mset (map (pairTeams teams) (indexPairs ?n))"
    by (simp only: fx fixtures_single)
  have f2: "mset (map fixture (?gen True))
            = mset (map (pairTeams teams) (indexPairs ?n)) + mset (map (pairTeamsSwapped teams) (indexPairs ?n))"
    by (simp only: fx fixtures_double)
  have e: "?n < 2 \<longrightarrow> ?gen twoLegged = []"
    by (simp add: generateRoundRobinMatches_def)
  show ?thesis
    using l1 l2 f1 f2 e distinct_indexPairs [of ?n] set_indexPairs [of ?n]
    by blast
qed

theorem generateRoundRobinMatches_fixtures_witness:
  "(\<forall>ms::Match list. mset (rev ms) = mset ms)
   \<and> length (generateRoundRobinMatches clockA rev [teamA, teamB, teamC] categoryX False) = 3
   \<and> length (generateRoundRobinMatches clockA rev [teamA, teamB, teamC] categoryX True) = 6
   \<and> mset (map fixture (generateRoundRobinMatches clockA rev [teamA, teamB, teamC] categoryX False))
       = {#(teamA, teamB), (teamA, teamC), (teamB, teamC)#}"
proof -
  have p: "\<forall>ms::Match list. mset (rev ms) = mset ms" by simp
  have ip: "indexPairs (Suc (Suc (Suc 0))) = [(0, 1), (0, 2), (1, 2)]"
    by (simp add: indexPairs_def upt_rec)
  show ?thesis
    using generateRoundRobinMatches_fixtures [OF p, of clockA "[teamA, teamB, teamC]" categoryX False]
    by (simp add: ip pairTeams_def)
qed

section \<open>Freshly generated matches\<close>

lemma distinct_concat_map:
  "distinct xs \<Longrightarrow> (\<And>x. x \<in> set xs \<Longrightarrow> distinct (f x))
   \<Longrightarrow> (\<And>x y. x \<in> set xs \<Longrightarrow> y \<in> set xs \<Longrightarrow> x \<noteq> y \<Longrightarrow> set (f x) \<inter> set (f y) = {})
   \<Longrightarrow> distinct (concat (map f xs))"
proof (induction xs)
  case Nil
  then show ?case by simp
next
  case (Cons x xs)
  have "distinct (concat (map f xs))"
    using Cons.prems by (intro Cons.IH) auto
  moreover have "distinct (f x)" using Cons.prems(2) by simp
  moreover have "set (f x) \<inter> set (f y) = {}" if "y \<in> set xs" for y
    using Cons.prems(1) Cons.prems(3) [of x y] that by auto
  ultimately show ?case by auto
qed

lemma leg_strings: "CHR ''-'' \<notin> set ''1''" "CHR ''-'' \<notin> set ''2''" "''1'' \<noteq> ''2''"
  by simp_all

lemma legIds_distinct: "distinct (map match_id (legs now teams category twoLegged p))"
  using matchIdString_inj [OF leg_strings(1,2)]
  by (auto simp: legs_def match1_def match2_def)

lemma legIds_disjoint:
  assumes "p \<noteq> q"
  shows "set (map match_id (legs now teams category twoLegged p))
         \<inter> set (map match_id (legs now teams category twoLegged q)) = {}"
proof -
  have a: "matchIdString t (fst p) (snd p) ''1'' \<noteq> matchIdString t' (fst q) (snd q) ''1''" for t t'
    using matchIdString_inj [OF leg_strings(1,1)] assms by (metis prod_eqI)
  have b: "matchIdString t (snd p) (fst p) ''2'' \<noteq> matchIdString t' (snd q) (fst q) ''2''" for t t'
    using matchIdString_inj [OF leg_strings(2,2)] assms by (metis prod_eqI)
  have c: "matchIdString t x y ''1'' \<noteq> matchIdString t' x' y' ''2''" for t t' x y x' y'
    using matchIdString_inj [OF leg_strings(1,2)] by fastforce
  have d: "matchIdString t x y ''2'' \<noteq> matchIdString t' x' y' ''1''" for t t' x y x' y'
    using matchIdString_inj [OF leg_strings(2,1)] by fastforce
  show ?thesis
    using a b c d by (simp add: legs_def match1_def match2_def)
qed

lemma allIds_distinct:
  "distinct (map match_id (concat (map (legs now teams category twoLegged) (indexPairs n))))"
proof -
  have "distinct (concat (map (\<lambda>p. map match_id (legs now teams category twoLegged p)) (indexPairs n)))"
  proof (rule distinct_concat_map)
    show "distinct (indexPairs n)" by (rule distinct_indexPairs)
    show "distinct (map match_id (legs now teams category twoLegged p))" for p
      by (rule legIds_distinct)
    show "set (map match_id (legs now teams category twoLegged p))
          \<inter> set (map match_id (legs now teams category twoLegged q)) = {}" if "p \<noteq> q" for p q
      using that by (rule legIds_disjoint)
  qed
  then show ?thesis by (simp add: map_concat comp_def)
qed

lemma legs_fields:
  "m \<in> set (legs now teams category twoLegged p) \<Longrightarrow>
     sets m = emptySets \<and> winner m = None \<and> status m = Pending \<and> date m = []
     \<and> categoryId m = category_id category"
  by (auto simp: legs_def match1_def match2_def split: if_splits)

text \<open>
  Claim C9. With the shuffle a rearrangement of its argument, every match of
  the returned schedule has exactly three sets with both scores unset, no
  winner, status Pending, the empty date string and the given category's id;
  and the identifiers of the returned matches are pairwise different, whatever
  the clock reads.
\<close>

theorem generated_matches_fresh:
  assumes perm: "\<forall>ms. mset (shuffle ms) = mset ms"
  shows "(\<forall>m \<in> set (generateRoundRobinMatches now shuffle teams category twoLegged).
            sets m = [\<lparr>set_team1 = None, set_team2 = None\<rparr>,
                      \<lparr>set_team1 = None, set_team2 = None\<rparr>,
                      \<lparr>set_team1 = None, set_team2 = None\<rparr>]
          \<and> winner m = None \<and> status m = Pending \<and> date m = ''''
          \<and> categoryId m = category_id category)
       \<and> distinct (map match_id (generateRoundRobinMatches now shuffle teams category twoLegged))"
proof -
  let ?gen = "generateRoundRobinMatches now shuffle teams category twoLegged"
  let ?all = "concat (map (legs now teams category twoLegged) (indexPairs (length teams)))"
  have ms: "mset ?gen = mset ?all" by (rule generate_mset [OF perm])
  then have "set ?gen = set ?all" by (rule mset_eq_setD)
  then have fields: "\<forall>m \<in> set ?gen. sets m = emptySets \<and> winner m = None \<and> status m = Pending
      \<and> date m = [] \<and> categoryId m = category_id category"
    using legs_fields by fastforce
  from ms have "mset (map match_id ?gen) = mset (map match_id ?all)" by (metis mset_map)
  then have "distinct (map match_id ?gen) = distinct (map match_id ?all)"
    by (rule mset_eq_imp_distinct_iff)
  then have "distinct (map match_id ?gen)" by (simp only: allIds_distinct)
  with fields show ?thesis by (simp add: emptySets_def)
qed

lemma pairLoops3:
  "pairLoops now [a, b, c] category False =
     [match1 now [a, b, c] category 0 1, match1 now [a, b, c] category 0 2,
      match1 now [a, b, c] category 1 2]"
  by (simp add: pairLoops_concat indexPairs_def upt_rec legs_def numeral_2_eq_2)

theorem generated_matches_fresh_witness:
  "(\<forall>ms::Match list. mset (rev ms) = mset ms)
   \<and> map match_id (generateRoundRobinMatches clockA rev [teamA, teamB, teamC] categoryX False)
       = [''match-7-1-2-1'', ''match-7-0-2-1'', ''match-7-0-1-1'']
   \<and> distinct (map match_id (generateRoundRobinMatches clockA rev [teamA, teamB, teamC] categoryX False))
   \<and> map status (generateRoundRobinMatches clockA rev [teamA, teamB, teamC] categoryX False)
       = [Pending, Pending, Pending]"
proof -
  have p: "\<forall>ms::Match list. mset (rev ms) = mset ms" by simp
  have ids: "map match_id (generateRoundRobinMatches clockA rev [teamA, teamB, teamC] categoryX False)
       = [''match-7-1-2-1'', ''match-7-0-2-1'', ''match-7-0-1-1'']"
    by (simp add: generateRoundRobinMatches_def pairLoops3 match1_def matchIdString_def
        clockA_def show_int_def show_nat.simps digit_char_def char_of_def bit_Suc_0_iff)
  have len: "length (generateRoundRobinMatches clockA rev [teamA, teamB, teamC] categoryX False) = 3"
    by (simp add: generateRoundRobinMatches_def pairLoops3)
  from generated_matches_fresh [OF p, of clockA "[teamA, teamB, teamC]" categoryX False]
  have d: "distinct (map match_id (generateRoundRobinMatches clockA rev [teamA, teamB, teamC] categoryX False))"
    and st: "\<forall>m \<in> set (generateRoundRobinMatches clockA rev [teamA, teamB, teamC] categoryX False).
              status m = Pending"
    by simp_all
  from st have "map status (generateRoundRobinMatches clockA rev [teamA, teamB, teamC] categoryX False)
      = replicate (length (generateRoundRobinMatches clockA rev [teamA, teamB, teamC] categoryX False)) Pending"
    by (simp add: map_replicate_const [symmetric] cong: map_cong)
  then have "map status (generateRoundRobinMatches clockA rev [teamA, teamB, teamC] categoryX False)
      = [Pending, Pending, Pending]"
    by (simp add: len numeral_3_eq_3)
  with p ids d show ?thesis by blast
qed

section \<open>Determinism of the generator\<close>






section \<open>The match-result update\<close>

lemma countSetWin_step: "countSetWin s (a, b) = (a + setsWon1 [s], b + setsWon2 [s])"
  by (cases "set_team1 s"; cases "set_team2 s")
     (simp_all add: countSetWin_def setsWon1_def setsWon2_def bothPresent_def score1_def score2_def)

lemma setsWon_Cons:
  "setsWon1 (s # ss) = setsWon1 [s] + setsWon1 ss" "setsWon2 (s # ss) = setsWon2 [s] + setsWon2 ss"
  by (simp_all add: setsWon1_def setsWon2_def)

lemma fold_countSetWin:
  "fold countSetWin ss (a, b) = (a + setsWon1 ss, b + setsWon2 ss)"
proof (induction ss arbitrary: a b)
  case Nil
  show ?case by (simp add: setsWon1_def setsWon2_def)
next
  case (Cons s ss)
  show ?case
    by (simp add: countSetWin_step Cons.IH setsWon_Cons [of s ss])
qed

lemma updateMatch_consistent: "resultConsistent (updateMatch d m)"
  by (simp add: updateMatch_def resultConsistent_def fold_countSetWin Let_def)

lemma updateMatch_keeps:
  "match_id (updateMatch d m) = match_id m \<and> team1 (updateMatch d m) = team1 m
   \<and> team2 (updateMatch d m) = team2 m \<and> categoryId (updateMatch d m) = categoryId m"
  by (simp add: updateMatch_def fold_countSetWin Let_def)

text \<open>
  Claim C7. After the update, each match with the given id has status Finished
  exactly when its winner is non-null, and its winner, when non-null, is its
  team1 with at least two sets won or its team2 with at least two sets won,
  counted over the sets whose two scores are both present (and it has no
  winner only when neither side has two); every match with another id is the
  match that was there before; so if all matches were consistent before, all
  are after.
\<close>

theorem handleUpdateMatch_result:
  "length (handleUpdateMatch matchId d ms) = length ms
   \<and> (\<forall>k < length ms. match_id (ms ! k) \<noteq> matchId \<longrightarrow> handleUpdateMatch matchId d ms ! k = ms ! k)
   \<and> (\<forall>k < length ms. match_id (ms ! k) = matchId \<longrightarrow>
         resultConsistent (handleUpdateMatch matchId d ms ! k)
         \<and> match_id (handleUpdateMatch matchId d ms ! k) = matchId
         \<and> team1 (handleUpdateMatch matchId d ms ! k) = team1 (ms ! k)
         \<and> team2 (handleUpdateMatch matchId d ms ! k) = team2 (ms ! k))
   \<and> ((\<forall>m \<in> set ms. resultConsistent m)
        \<longrightarrow> (\<forall>m \<in> set (handleUpdateMatch matchId d ms). resultConsistent m))"
proof -
  have a: "length (handleUpdateMatch matchId d ms) = length ms"
    by (simp add: handleUpdateMatch_def)
  have b: "\<forall>k < length ms. match_id (ms ! k) \<noteq> matchId \<longrightarrow> handleUpdateMatch matchId d ms ! k = ms ! k"
    by (simp add: handleUpdateMatch_def)
  have c: "\<forall>k < length ms. match_id (ms ! k) = matchId \<longrightarrow>
         resultConsistent (handleUpdateMatch matchId d ms ! k)
         \<and> match_id (handleUpdateMatch matchId d ms ! k) = matchId
         \<and> team1 (handleUpdateMatch matchId d ms ! k) = team1 (ms ! k)
         \<and> team2 (handleUpdateMatch matchId d ms ! k) = team2 (ms ! k)"
    by (simp add: handleUpdateMatch_def updateMatch_consistent updateMatch_keeps)
  have e: "(\<forall>m \<in> set ms. resultConsistent m)
        \<longrightarrow> (\<forall>m \<in> set (handleUpdateMatch matchId d ms). resultConsistent m)"
    by (auto simp: handleUpdateMatch_def updateMatch_consistent)
  from a b c e show ?thesis by blast
qed

lemma example_ids: "match_id exampleMatch \<noteq> ''m2''" "match_id pendingMatch = ''m2''"
  by (simp_all add: exampleMatch_def pendingMatch_def)

lemma example_update: "handleUpdateMatch ''m2'' straightSets [exampleMatch, pendingMatch]
   = [exampleMatch, updateMatch straightSets pendingMatch]"
  by (simp add: handleUpdateMatch_def example_ids)

lemma example_tally: "fold countSetWin (the (new_sets straightSets)) (0, 0) = (2, 0)"
  by (simp add: straightSets_def countSetWin_def)

lemma example_winner: "winner (updateMatch straightSets pendingMatch) = Some teamA"
  using example_tally by (simp add: updateMatch_def Let_def straightSets_def pendingMatch_def)

theorem handleUpdateMatch_result_witness:
  "handleUpdateMatch ''m2'' straightSets [exampleMatch, pendingMatch] ! 0 = exampleMatch
   \<and> winner (handleUpdateMatch ''m2'' straightSets [exampleMatch, pendingMatch] ! 1) = Some teamA
   \<and> resultConsistent (handleUpdateMatch ''m2'' straightSets [exampleMatch, pendingMatch] ! 1)"
proof -
  let ?ms = "[exampleMatch, pendingMatch]"
  have c: "\<forall>k < length ?ms. match_id (?ms ! k) = ''m2'' \<longrightarrow>
         resultConsistent (handleUpdateMatch ''m2'' straightSets ?ms ! k)"
    using handleUpdateMatch_result [of "''m2''" straightSets ?ms] by blast
  have "1 < length ?ms \<and> match_id (?ms ! 1) = ''m2''" by (simp add: example_ids)
  with c have "resultConsistent (handleUpdateMatch ''m2'' straightSets ?ms ! 1)" by blast
  then show ?thesis by (simp add: example_update example_winner)
qed

section \<open>The order of the standings\<close>

lemma compareStandings_le: "(compareStandings a b \<le> 0) = rankedBefore a b"
  by (auto simp: compareStandings_def rankedBefore_def)

lemma rankedBefore_trans: "rankedBefore a b \<Longrightarrow> rankedBefore b c \<Longrightarrow> rankedBefore a c"
  unfolding rankedBefore_def by linarith

lemma rankedBefore_total: "\<not> rankedBefore a b \<Longrightarrow> rankedBefore b a"
  unfolding rankedBefore_def by linarith

lemma mset_insertSorted: "mset (insertSorted cmp x ys) = add_mset x (mset ys)"
  by (induction ys) simp_all

lemma mset_sortBy: "mset (sortBy cmp xs) = mset xs"
  by (induction xs) (simp_all add: sortBy_def mset_insertSorted)

lemma set_sortBy: "set (sortBy cmp xs) = set xs"
  using mset_sortBy [of cmp xs] by (rule mset_eq_setD)

lemma sorted_insertSorted:
  "sorted_wrt rankedBefore ys \<Longrightarrow> sorted_wrt rankedBefore (insertSorted compareStandings x ys)"
proof (induction ys)
  case Nil
  show ?case by simp
next
  case (Cons y ys)
  show ?case
  proof (cases "compareStandings x y \<le> 0")
    case True
    then have xy: "rankedBefore x y" by (simp add: compareStandings_le)
    with Cons.prems have "\<forall>z \<in> set ys. rankedBefore x z"
      by (auto intro: rankedBefore_trans)
    with xy Cons.prems True show ?thesis by simp
  next
    case False
    then have yx: "rankedBefore y x"
      by (simp add: compareStandings_le rankedBefore_total)
    have "set (insertSorted compareStandings x ys) = insert x (set ys)"
      using mset_insertSorted [of compareStandings x ys] by (metis mset_eq_setD set_mset_add_mset_insert set_mset_mset)
    with yx Cons False show ?thesis by simp
  qed
qed

lemma sorted_sortBy: "sorted_wrt rankedBefore (sortBy compareStandings xs)"
  by (induction xs) (simp_all add: sortBy_def sorted_insertSorted)

text \<open>
  Claim C2. The list calculateStandings returns is ordered by descending
  points, records with equal points by descending wins, records still tied by
  descending pointsDifference, and records still tied by descending pointsFor:
  every record stands before all records it outranks or equals in that
  lexicographic comparison.
\<close>

theorem calculateStandings_sorted:
  "sorted_wrt rankedBefore (calculateStandings teams matches)"
  by (simp add: calculateStandings_def sorted_sortBy)

section \<open>The standings map\<close>

lemma mapGet_mutate:
  "mapGet (mutate k f m) x = (if x = k then map_option f (mapGet m x) else mapGet m x)"
  by (induction m) (auto simp: mapGet_def mutate_def)

lemma keys_mutate: "map fst (mutate k f m) = map fst m"
  by (induction m) (auto simp: mutate_def)

lemma keys_creditMatch: "map fst (creditMatch match winnerId loserId m) = map fst m"
  by (simp add: creditMatch_def Let_def keys_mutate split: prod.splits)

lemma keys_processMatch: "map fst (processMatch match m) = map fst m"
  by (simp add: processMatch_def Let_def keys_creditMatch split: option.splits)

lemma keys_fold_processMatch: "map fst (fold processMatch ms m) = map fst m"
  by (induction ms arbitrary: m) (simp_all add: keys_processMatch)

lemma mapGet_None: "(mapGet m k = None) = (k \<notin> fst ` set m)"
  by (simp add: mapGet_def map_of_eq_None_iff)

lemma keys_mapSet: "fst ` set (mapSet k v m) = insert k (fst ` set m)"
proof (induction m)
  case Nil
  show ?case by simp
next
  case (Cons p m)
  obtain k' v' where p: "p = (k', v')" by (cases p)
  show ?case using Cons.IH by (cases "k' = k") (auto simp: p)
qed

lemma distinct_mapSet: "distinct (map fst m) \<Longrightarrow> distinct (map fst (mapSet k v m))"
proof (induction m)
  case Nil
  show ?case by simp
next
  case (Cons p m)
  obtain k' v' where p: "p = (k', v')" by (cases p)
  show ?case using Cons by (cases "k' = k") (auto simp: p keys_mapSet)
qed

lemma keys_fold_mapSet:
  "fst ` set (fold (\<lambda>t. mapSet (team_id t) (initialStandings t)) teams m)
     = team_id ` set teams \<union> fst ` set m"
  by (induction teams arbitrary: m) (auto simp: keys_mapSet)

lemma distinct_fold_mapSet:
  "distinct (map fst m) \<Longrightarrow>
     distinct (map fst (fold (\<lambda>t. mapSet (team_id t) (initialStandings t)) teams m))"
  by (induction teams arbitrary: m) (simp_all add: distinct_mapSet)

lemma keys_newStandingsMap: "fst ` set (newStandingsMap teams) = team_id ` set teams"
  using keys_fold_mapSet [of teams "[]"] by (simp add: newStandingsMap_def)

lemma distinct_newStandingsMap: "distinct (map fst (newStandingsMap teams))"
  using distinct_fold_mapSet [of "[]" teams] by (simp add: newStandingsMap_def)

lemma inTeams_iff: "inTeams teams x = (team_id x \<in> team_id ` set teams)"
  by (auto simp: inTeams_def list_ex_iff image_iff) metis+

lemma keys_standingsMapAfter:
  "fst ` set (standingsMapAfter teams matches) = team_id ` set teams"
proof -
  have "set (map fst (standingsMapAfter teams matches)) = set (map fst (newStandingsMap teams))"
    by (simp only: standingsMapAfter_def keys_fold_processMatch)
  then show ?thesis by (simp add: keys_newStandingsMap)
qed

lemma distinct_standingsMapAfter: "distinct (map fst (standingsMapAfter teams matches))"
  by (simp only: standingsMapAfter_def keys_fold_processMatch distinct_newStandingsMap)

lemma standingsMapAfter_skip:
  assumes "\<not> (inTeams teams (team1 m) \<and> inTeams teams (team2 m))
           \<or> processMatch m (standingsMapAfter teams ms1) = standingsMapAfter teams ms1"
  shows "standingsMapAfter teams (ms1 @ m # ms2) = standingsMapAfter teams (ms1 @ ms2)"
  using assms by (auto simp: standingsMapAfter_def relevantMatches_def)

section \<open>Which matches count\<close>

text \<open>
  Claim C5. A match counts only if both its teams have ids in the team list,
  its status is Finished and its winner is non-null: a match that fails one
  of these (a Pending match in particular, whatever scores its sets hold) can
  be deleted from the match list without changing the result.
\<close>

theorem calculateStandings_counts_only:
  assumes "\<not> inTeams teams (team1 m) \<or> \<not> inTeams teams (team2 m)
           \<or> status m \<noteq> Finished \<or> winner m = None"
  shows "calculateStandings teams (ms1 @ m # ms2) = calculateStandings teams (ms1 @ ms2)"
proof -
  have "standingsMapAfter teams (ms1 @ m # ms2) = standingsMapAfter teams (ms1 @ ms2)"
  proof (rule standingsMapAfter_skip)
    from assms
    show "\<not> (inTeams teams (team1 m) \<and> inTeams teams (team2 m))
           \<or> processMatch m (standingsMapAfter teams ms1) = standingsMapAfter teams ms1"
      by (auto simp: processMatch_def)
  qed
  then show ?thesis by (simp add: calculateStandings_def)
qed

text \<open>
  Claim C6 as stated fails: a Finished match between teams A and B whose
  recorded winner is a third team C of the team list is not skipped; C is
  given a win and A a loss.
\<close>

lemma orphan_standings:
  "map wins (calculateStandings [teamA, teamB, teamC] [orphanWinnerMatch]) = [1, 0, 0]
   \<and> map wins (calculateStandings [teamA, teamB, teamC] []) = [0, 0, 0]
   \<and> map (team_id \<circ> team) (calculateStandings [teamA, teamB, teamC] [orphanWinnerMatch])
       = [''tC'', ''tA'', ''tB'']"
  by code_simp

theorem orphan_winner_counted:
  "status orphanWinnerMatch = Finished
   \<and> winner orphanWinnerMatch = Some teamC
   \<and> team_id teamC \<noteq> team_id (team1 orphanWinnerMatch)
   \<and> team_id teamC \<noteq> team_id (team2 orphanWinnerMatch)
   \<and> calculateStandings [teamA, teamB, teamC] [orphanWinnerMatch]
       \<noteq> calculateStandings [teamA, teamB, teamC] []"
proof -
  have "calculateStandings [teamA, teamB, teamC] [orphanWinnerMatch]
       \<noteq> calculateStandings [teamA, teamB, teamC] []"
    using orphan_standings by auto
  then show ?thesis
    by (simp add: orphanWinnerMatch_def teamA_def teamB_def teamC_def)
qed

text \<open>
  Claim C6, amended. A match whose winner's team id is the id of no team in
  the team list is skipped: it can be deleted from the match list without
  changing the result, and nothing fails.
\<close>

theorem calculateStandings_unknown_winner_skipped:
  assumes "winner m = Some w" and "\<not> inTeams teams w"
  shows "calculateStandings teams (ms1 @ m # ms2) = calculateStandings teams (ms1 @ ms2)"
proof -
  from assms(2) have "team_id w \<notin> fst ` set (standingsMapAfter teams ms1)"
    by (simp add: keys_standingsMapAfter inTeams_iff)
  then have "mapGet (standingsMapAfter teams ms1) (team_id w) = None"
    by (simp add: mapGet_None)
  with assms(1) have "processMatch m (standingsMapAfter teams ms1) = standingsMapAfter teams ms1"
    by (simp add: processMatch_def Let_def)
  then have "standingsMapAfter teams (ms1 @ m # ms2) = standingsMapAfter teams (ms1 @ ms2)"
    by (simp add: standingsMapAfter_skip)
  then show ?thesis by (simp add: calculateStandings_def)
qed

section \<open>What one counted match does to a record\<close>

lemma tallySet_step:
  "tallySet s (a, b, c, d) = (a + setsWon1 [s], b + setsWon2 [s], c + total1 [s], d + total2 [s])"
  by (cases "set_team1 s"; cases "set_team2 s")
     (simp_all add: tallySet_def setsWon1_def setsWon2_def total1_def total2_def bothPresent_def
        score1_def score2_def)

lemma totals_Cons:
  "total1 (s # ss) = total1 [s] + total1 ss" "total2 (s # ss) = total2 [s] + total2 ss"
  by (simp_all add: total1_def total2_def)

lemma fold_tallySet:
  "fold tallySet ss (a, b, c, d) = (a + setsWon1 ss, b + setsWon2 ss, c + total1 ss, d + total2 ss)"
proof (induction ss arbitrary: a b c d)
  case Nil
  show ?case by (simp add: setsWon1_def setsWon2_def total1_def total2_def)
next
  case (Cons s ss)
  show ?case
    by (simp add: tallySet_step Cons.IH setsWon_Cons [of s ss] totals_Cons [of s ss])
qed

lemma tallySets_eq: "tallySets ss = (setsWon1 ss, setsWon2 ss, total1 ss, total2 ss)"
  by (simp add: tallySets_def fold_tallySet)

lemma creditMatch_lookup:
  assumes "mapGet sm x = Some r"
  shows "\<exists>r'. mapGet (creditMatch m w l sm) x = Some r' \<and> team r' = team r
     \<and> played r' = played r + (if x = w then 1 else 0) + (if x = l then 1 else 0)
     \<and> wins r' = wins r + (if x = w then 1 else 0)
     \<and> losses r' = losses r + (if x = l then 1 else 0)
     \<and> points r' = points r + (if x = w then winnerAward m else 0) + (if x = l then loserAward m else 0)
     \<and> pointsFor r' = pointsFor r
          + (if x = w then (if team_id (team1 m) = w then total1 (sets m) else total2 (sets m)) else 0)
          + (if x = l then (if team_id (team1 m) = w then total2 (sets m) else total1 (sets m)) else 0)
     \<and> pointsAgainst r' = pointsAgainst r
          + (if x = w then (if team_id (team1 m) = w then total2 (sets m) else total1 (sets m)) else 0)
          + (if x = l then (if team_id (team1 m) = w then total1 (sets m) else total2 (sets m)) else 0)
     \<and> (pointsDifference r = pointsFor r - pointsAgainst r
          \<longrightarrow> pointsDifference r' = pointsFor r' - pointsAgainst r')"
  using assms
  by (cases "x = w"; cases "x = l")
     (simp_all add: creditMatch_def tallySets_eq Let_def mapGet_mutate winnerAward_def
        loserAward_def setTally_def)

lemma countedIn_keys: "map fst sm' = map fst sm \<Longrightarrow> countedIn sm' m = countedIn sm m"
proof -
  assume "map fst sm' = map fst sm"
  then have "fst ` set sm' = fst ` set sm" by (metis set_map)
  then have "\<And>k. (mapGet sm' k = None) = (mapGet sm k = None)" by (simp add: mapGet_None)
  then show ?thesis by (simp add: countedIn_def split: option.splits)
qed

lemma processMatch_skip: "\<not> countedIn sm m \<Longrightarrow> processMatch m sm = sm"
  by (auto simp: processMatch_def countedIn_def Let_def split: option.splits)

lemma processMatch_credit:
  "countedIn sm m \<Longrightarrow> winner m = Some w \<Longrightarrow>
     processMatch m sm = creditMatch m (team_id w) (loserIdOf m (team_id w)) sm"
  by (auto simp: processMatch_def countedIn_def Let_def)

lemma processMatch_lookup:
  assumes "mapGet sm x = Some r"
  shows "\<exists>r'. mapGet (processMatch m sm) x = Some r' \<and> team r' = team r
     \<and> played r' = played r + (if countedIn sm m \<and> chargedAsWinner m x then 1 else 0)
                            + (if countedIn sm m \<and> chargedAsLoser m x then 1 else 0)
     \<and> wins r' = wins r + (if countedIn sm m \<and> chargedAsWinner m x then 1 else 0)
     \<and> losses r' = losses r + (if countedIn sm m \<and> chargedAsLoser m x then 1 else 0)
     \<and> points r' = points r
          + (if countedIn sm m \<and> chargedAsWinner m x then winnerAward m else 0)
          + (if countedIn sm m \<and> chargedAsLoser m x then loserAward m else 0)
     \<and> pointsFor r' = pointsFor r + (if countedIn sm m then creditedFor x m else 0)
     \<and> pointsAgainst r' = pointsAgainst r + (if countedIn sm m then creditedAgainst x m else 0)
     \<and> (pointsDifference r = pointsFor r - pointsAgainst r
          \<longrightarrow> pointsDifference r' = pointsFor r' - pointsAgainst r')"
proof (cases "countedIn sm m")
  case False
  with assms show ?thesis by (simp add: processMatch_skip)
next
  case True
  then obtain w where w: "winner m = Some w"
    by (auto simp: countedIn_def split: option.splits)
  from creditMatch_lookup [OF assms, of m "team_id w" "loserIdOf m (team_id w)"]
  obtain r' where r': "mapGet (creditMatch m (team_id w) (loserIdOf m (team_id w)) sm) x = Some r'"
    and f: "team r' = team r"
      "played r' = played r + (if x = team_id w then 1 else 0)
         + (if x = loserIdOf m (team_id w) then 1 else 0)"
      "wins r' = wins r + (if x = team_id w then 1 else 0)"
      "losses r' = losses r + (if x = loserIdOf m (team_id w) then 1 else 0)"
      "points r' = points r + (if x = team_id w then winnerAward m else 0)
         + (if x = loserIdOf m (team_id w) then loserAward m else 0)"
      "pointsFor r' = pointsFor r
          + (if x = team_id w then (if team_id (team1 m) = team_id w then total1 (sets m) else total2 (sets m)) else 0)
          + (if x = loserIdOf m (team_id w) then (if team_id (team1 m) = team_id w then total2 (sets m) else total1 (sets m)) else 0)"
      "pointsAgainst r' = pointsAgainst r
          + (if x = team_id w then (if team_id (team1 m) = team_id w then total2 (sets m) else total1 (sets m)) else 0)
          + (if x = loserIdOf m (team_id w) then (if team_id (team1 m) = team_id w then total1 (sets m) else total2 (sets m)) else 0)"
      "pointsDifference r = pointsFor r - pointsAgainst r
          \<longrightarrow> pointsDifference r' = pointsFor r' - pointsAgainst r'"
    by blast
  have cw: "chargedAsWinner m y = (team_id w = y)" for y
    by (simp add: chargedAsWinner_def w)
  have cl: "chargedAsLoser m y = (loserIdOf m (team_id w) = y)" for y
    by (simp add: chargedAsLoser_def w)
  have "mapGet (processMatch m sm) x = Some r'"
    using r' by (simp add: processMatch_credit [OF True w])
  moreover have "pointsFor r' = pointsFor r + creditedFor x m"
    using f(6) by (auto simp: creditedFor_def cw cl)
  moreover have "pointsAgainst r' = pointsAgainst r + creditedAgainst x m"
    using f(7) by (auto simp: creditedAgainst_def cw cl)
  ultimately show ?thesis
    using True f(1-5) f(8) by (auto simp: cw cl)
qed


lemma step_facts:
  assumes "mapGet sm x = Some r" and r1: "mapGet (processMatch m sm) x = Some r1"
  shows "team r1 = team r"
    and "played r1 = played r + (if countedIn sm m \<and> chargedAsWinner m x then 1 else 0)
                            + (if countedIn sm m \<and> chargedAsLoser m x then 1 else 0)"
    and "wins r1 = wins r + (if countedIn sm m \<and> chargedAsWinner m x then 1 else 0)"
    and "losses r1 = losses r + (if countedIn sm m \<and> chargedAsLoser m x then 1 else 0)"
    and "points r1 = points r
          + (if countedIn sm m \<and> chargedAsWinner m x then winnerAward m else 0)
          + (if countedIn sm m \<and> chargedAsLoser m x then loserAward m else 0)"
    and "pointsFor r1 = pointsFor r + (if countedIn sm m then creditedFor x m else 0)"
    and "pointsAgainst r1 = pointsAgainst r + (if countedIn sm m then creditedAgainst x m else 0)"
    and "pointsDifference r = pointsFor r - pointsAgainst r
          \<Longrightarrow> pointsDifference r1 = pointsFor r1 - pointsAgainst r1"
proof -
  from processMatch_lookup [OF assms(1), of m] obtain r' where
    g: "mapGet (processMatch m sm) x = Some r'" and
    c: "team r' = team r
     \<and> played r' = played r + (if countedIn sm m \<and> chargedAsWinner m x then 1 else 0)
                            + (if countedIn sm m \<and> chargedAsLoser m x then 1 else 0)
     \<and> wins r' = wins r + (if countedIn sm m \<and> chargedAsWinner m x then 1 else 0)
     \<and> losses r' = losses r + (if countedIn sm m \<and> chargedAsLoser m x then 1 else 0)
     \<and> points r' = points r
          + (if countedIn sm m \<and> chargedAsWinner m x then winnerAward m else 0)
          + (if countedIn sm m \<and> chargedAsLoser m x then loserAward m else 0)
     \<and> pointsFor r' = pointsFor r + (if countedIn sm m then creditedFor x m else 0)
     \<and> pointsAgainst r' = pointsAgainst r + (if countedIn sm m then creditedAgainst x m else 0)
     \<and> (pointsDifference r = pointsFor r - pointsAgainst r
          \<longrightarrow> pointsDifference r' = pointsFor r' - pointsAgainst r')"
    by (elim exE conjE) (rule that, assumption, intro conjI, assumption+)
  from g r1 have e: "r' = r1" by simp
  from c show "team r1 = team r" unfolding e by (elim conjE)
  from c show "played r1 = played r + (if countedIn sm m \<and> chargedAsWinner m x then 1 else 0)
                            + (if countedIn sm m \<and> chargedAsLoser m x then 1 else 0)"
    unfolding e by (elim conjE)
  from c show "wins r1 = wins r + (if countedIn sm m \<and> chargedAsWinner m x then 1 else 0)"
    unfolding e by (elim conjE)
  from c show "losses r1 = losses r + (if countedIn sm m \<and> chargedAsLoser m x then 1 else 0)"
    unfolding e by (elim conjE)
  from c show "points r1 = points r
          + (if countedIn sm m \<and> chargedAsWinner m x then winnerAward m else 0)
          + (if countedIn sm m \<and> chargedAsLoser m x then loserAward m else 0)"
    unfolding e by (elim conjE)
  from c show "pointsFor r1 = pointsFor r + (if countedIn sm m then creditedFor x m else 0)"
    unfolding e by (elim conjE)
  from c show "pointsAgainst r1 = pointsAgainst r + (if countedIn sm m then creditedAgainst x m else 0)"
    unfolding e by (elim conjE)
  from c show "pointsDifference r = pointsFor r - pointsAgainst r
          \<Longrightarrow> pointsDifference r1 = pointsFor r1 - pointsAgainst r1"
    unfolding e by (elim conjE impE)
qed


lemma lookup_defined:
  assumes "map fst sm' = map fst sm" and "mapGet sm x = Some r"
  shows "\<exists>r'. mapGet sm' x = Some r'"
proof -
  from assms(1) have "fst ` set sm' = fst ` set sm" by (metis set_map)
  moreover from assms(2) have "mapGet sm x \<noteq> None" by simp
  ultimately have "mapGet sm' x \<noteq> None" by (simp add: mapGet_None)
  then show ?thesis by (cases "mapGet sm' x") simp_all
qed

lemma countedIn_processMatch: "countedIn (processMatch m sm) = countedIn sm"
  by (rule ext) (rule countedIn_keys [OF keys_processMatch])

lemma fold_facts:
  assumes "mapGet sm x = Some r" and "mapGet (fold processMatch ms sm) x = Some r'"
  shows "team r' = team r"
    and "played r' = played r
          + int (length (filter (\<lambda>m. countedIn sm m \<and> chargedAsWinner m x) ms))
          + int (length (filter (\<lambda>m. countedIn sm m \<and> chargedAsLoser m x) ms))"
    and "wins r' = wins r + int (length (filter (\<lambda>m. countedIn sm m \<and> chargedAsWinner m x) ms))"
    and "losses r' = losses r + int (length (filter (\<lambda>m. countedIn sm m \<and> chargedAsLoser m x) ms))"
    and "pointsFor r' = pointsFor r + sum_list (map (creditedFor x) (filter (countedIn sm) ms))"
    and "pointsAgainst r' = pointsAgainst r + sum_list (map (creditedAgainst x) (filter (countedIn sm) ms))"
    and "pointsDifference r = pointsFor r - pointsAgainst r
          \<Longrightarrow> pointsDifference r' = pointsFor r' - pointsAgainst r'"
    and "points r' = points r + sum_list (map (pointsAwarded x) (filter (countedIn sm) ms))"
  using assms
proof (induction ms arbitrary: sm r)
  case Nil
  { case 1 then show ?case by simp }
  { case 2 then show ?case by simp }
  { case 3 then show ?case by simp }
  { case 4 then show ?case by simp }
  { case 5 then show ?case by simp }
  { case 6 then show ?case by simp }
  { case 7 then show ?case by simp }
  { case 8 then show ?case by simp }
next
  case (Cons m ms)
  { case 1
    obtain r1 where r1: "mapGet (processMatch m sm) x = Some r1"
      using lookup_defined [OF keys_processMatch 1(1)] by blast
    from 1(2) have r': "mapGet (fold processMatch ms (processMatch m sm)) x = Some r'" by simp
    from Cons.IH(1) [OF r1 r'] step_facts(1) [OF 1(1) r1] show ?case by simp }
  { case 2
    obtain r1 where r1: "mapGet (processMatch m sm) x = Some r1"
      using lookup_defined [OF keys_processMatch 2(1)] by blast
    from 2(2) have r': "mapGet (fold processMatch ms (processMatch m sm)) x = Some r'" by simp
    from Cons.IH(2) [OF r1 r', unfolded countedIn_processMatch] step_facts(2) [OF 2(1) r1]
    show ?case by simp }
  { case 3
    obtain r1 where r1: "mapGet (processMatch m sm) x = Some r1"
      using lookup_defined [OF keys_processMatch 3(1)] by blast
    from 3(2) have r': "mapGet (fold processMatch ms (processMatch m sm)) x = Some r'" by simp
    from Cons.IH(3) [OF r1 r', unfolded countedIn_processMatch] step_facts(3) [OF 3(1) r1]
    show ?case by simp }
  { case 4
    obtain r1 where r1: "mapGet (processMatch m sm) x = Some r1"
      using lookup_defined [OF keys_processMatch 4(1)] by blast
    from 4(2) have r': "mapGet (fold processMatch ms (processMatch m sm)) x = Some r'" by simp
    from Cons.IH(4) [OF r1 r', unfolded countedIn_processMatch] step_facts(4) [OF 4(1) r1]
    show ?case by simp }
  { case 5
    obtain r1 where r1: "mapGet (processMatch m sm) x = Some r1"
      using lookup_defined [OF keys_processMatch 5(1)] by blast
    from 5(2) have r': "mapGet (fold processMatch ms (processMatch m sm)) x = Some r'" by simp
    from Cons.IH(5) [OF r1 r', unfolded countedIn_processMatch] step_facts(6) [OF 5(1) r1]
    show ?case by simp }
  { case 6
    obtain r1 where r1: "mapGet (processMatch m sm) x = Some r1"
      using lookup_defined [OF keys_processMatch 6(1)] by blast
    from 6(2) have r': "mapGet (fold processMatch ms (processMatch m sm)) x = Some r'" by simp
    from Cons.IH(6) [OF r1 r', unfolded countedIn_processMatch] step_facts(7) [OF 6(1) r1]
    show ?case by simp }
  { case 7
    obtain r1 where r1: "mapGet (processMatch m sm) x = Some r1"
      using lookup_defined [OF keys_processMatch 7(2)] by blast
    from 7(3) have r': "mapGet (fold processMatch ms (processMatch m sm)) x = Some r'" by simp
    from step_facts(8) [OF 7(2) r1 7(1)]
    have "pointsDifference r1 = pointsFor r1 - pointsAgainst r1" .
    from Cons.IH(7) [OF this r1 r'] show ?case . }
  { case 8
    obtain r1 where r1: "mapGet (processMatch m sm) x = Some r1"
      using lookup_defined [OF keys_processMatch 8(1)] by blast
    from 8(2) have r': "mapGet (fold processMatch ms (processMatch m sm)) x = Some r'" by simp
    from Cons.IH(8) [OF r1 r', unfolded countedIn_processMatch] step_facts(5) [OF 8(1) r1]
    show ?case by (simp add: pointsAwarded_def) }
qed

section \<open>The records of the result\<close>

lemma set_mapSet: "set (mapSet k v m) \<subseteq> insert (k, v) (set m)"
proof (induction m)
  case Nil
  show ?case by simp
next
  case (Cons p m)
  obtain k' v' where p: "p = (k', v')" by (cases p)
  show ?case using Cons.IH by (cases "k' = k") (auto simp: p)
qed

lemma set_fold_mapSet:
  "set (fold (\<lambda>t. mapSet (team_id t) (initialStandings t)) teams m)
     \<subseteq> set m \<union> (\<lambda>t. (team_id t, initialStandings t)) ` set teams"
proof (induction teams arbitrary: m)
  case Nil
  show ?case by simp
next
  case (Cons t teams)
  from Cons.IH [of "mapSet (team_id t) (initialStandings t) m"]
    set_mapSet [of "team_id t" "initialStandings t" m]
  show ?case by auto
qed

lemma newStandingsMap_entry:
  assumes "mapGet (newStandingsMap teams) x = Some r0"
  shows "\<exists>t \<in> set teams. team_id t = x \<and> r0 = initialStandings t"
proof -
  from assms have "(x, r0) \<in> set (newStandingsMap teams)"
    by (simp add: mapGet_def map_of_SomeD)
  with set_fold_mapSet [of teams "[]"] show ?thesis
    by (auto simp: newStandingsMap_def)
qed

lemma result_record:
  assumes "r \<in> set (calculateStandings teams matches)"
  shows "\<exists>t \<in> set teams.
           mapGet (newStandingsMap teams) (team_id t) = Some (initialStandings t)
         \<and> mapGet (standingsMapAfter teams matches) (team_id t) = Some r"
proof -
  from assms have "r \<in> snd ` set (standingsMapAfter teams matches)"
    by (simp add: calculateStandings_def set_sortBy)
  then obtain x where xr: "(x, r) \<in> set (standingsMapAfter teams matches)" by auto
  with distinct_standingsMapAfter [of teams matches]
  have after: "mapGet (standingsMapAfter teams matches) x = Some r"
    by (simp add: mapGet_def)
  have "map fst (newStandingsMap teams) = map fst (standingsMapAfter teams matches)"
    by (simp add: standingsMapAfter_def keys_fold_processMatch)
  from lookup_defined [OF this after]
  obtain r0 where r0: "mapGet (newStandingsMap teams) x = Some r0" by blast
  from newStandingsMap_entry [OF r0]
  obtain t where "t \<in> set teams" "team_id t = x" "r0 = initialStandings t" by blast
  with r0 after show ?thesis by blast
qed

lemma loserIdOf_cases:
  "loserIdOf m x = team_id (team1 m) \<or> loserIdOf m x = team_id (team2 m)"
  by (simp add: loserIdOf_def)

lemma counted_iff:
  "(inTeams teams (team1 m) \<and> inTeams teams (team2 m) \<and> countedIn (newStandingsMap teams) m)
     = counted teams m"
proof (cases "winner m")
  case None
  then show ?thesis by (simp add: countedIn_def counted_def)
next
  case (Some w)
  have k: "(mapGet (newStandingsMap teams) x \<noteq> None) = (x \<in> team_id ` set teams)" for x
    by (simp only: mapGet_None keys_newStandingsMap not_not)
  have c: "countedIn (newStandingsMap teams) m
      = (status m = Finished \<and> team_id w \<in> team_id ` set teams
         \<and> loserIdOf m (team_id w) \<in> team_id ` set teams)"
    by (simp only: countedIn_def Some option.case k)
  have l: "loserIdOf m (team_id w) \<in> team_id ` set teams"
    if "team_id (team1 m) \<in> team_id ` set teams" "team_id (team2 m) \<in> team_id ` set teams"
    using that loserIdOf_cases [of m "team_id w"] by metis
  show ?thesis
    unfolding c counted_def Some option.case inTeams_iff using l by blast
qed

lemma filter_counted:
  "filter (\<lambda>m. countedIn (newStandingsMap teams) m \<and> q m) (relevantMatches teams matches)
     = filter (\<lambda>m. counted teams m \<and> q m) matches"
proof -
  have "filter (\<lambda>m. countedIn (newStandingsMap teams) m \<and> q m) (relevantMatches teams matches)
      = filter (\<lambda>m. (inTeams teams (team1 m) \<and> inTeams teams (team2 m)
                       \<and> countedIn (newStandingsMap teams) m) \<and> q m) matches"
    by (simp add: relevantMatches_def conj_ac)
  then show ?thesis by (simp only: counted_iff)
qed

lemma filter_counted_all:
  "filter (countedIn (newStandingsMap teams)) (relevantMatches teams matches)
     = filter (counted teams) matches"
  using filter_counted [of teams "\<lambda>m. True" matches] by simp

lemma record_fields:
  assumes "r \<in> set (calculateStandings teams matches)"
  shows "played r
          = int (length (filter (\<lambda>m. counted teams m \<and> chargedAsWinner m (team_id (team r))) matches))
          + int (length (filter (\<lambda>m. counted teams m \<and> chargedAsLoser m (team_id (team r))) matches))"
    and "wins r = int (length (filter (\<lambda>m. counted teams m \<and> chargedAsWinner m (team_id (team r))) matches))"
    and "losses r = int (length (filter (\<lambda>m. counted teams m \<and> chargedAsLoser m (team_id (team r))) matches))"
    and "pointsFor r = sum_list (map (creditedFor (team_id (team r))) (filter (counted teams) matches))"
    and "pointsAgainst r = sum_list (map (creditedAgainst (team_id (team r))) (filter (counted teams) matches))"
    and "pointsDifference r = pointsFor r - pointsAgainst r"
    and "points r = sum_list (map (pointsAwarded (team_id (team r))) (filter (counted teams) matches))"
proof -
  from result_record [OF assms] obtain t where
    before: "mapGet (newStandingsMap teams) (team_id t) = Some (initialStandings t)"
    and "mapGet (standingsMapAfter teams matches) (team_id t) = Some r"
    by blast
  then have after: "mapGet (fold processMatch (relevantMatches teams matches) (newStandingsMap teams))
      (team_id t) = Some r"
    by (simp add: standingsMapAfter_def)
  from fold_facts(1) [OF before after] have t: "team_id (team r) = team_id t"
    by (simp add: initialStandings_def)
  from fold_facts(2) [OF before after]
  show "played r
          = int (length (filter (\<lambda>m. counted teams m \<and> chargedAsWinner m (team_id (team r))) matches))
          + int (length (filter (\<lambda>m. counted teams m \<and> chargedAsLoser m (team_id (team r))) matches))"
    by (simp add: filter_counted t initialStandings_def)
  from fold_facts(3) [OF before after]
  show "wins r = int (length (filter (\<lambda>m. counted teams m \<and> chargedAsWinner m (team_id (team r))) matches))"
    by (simp add: filter_counted t initialStandings_def)
  from fold_facts(4) [OF before after]
  show "losses r = int (length (filter (\<lambda>m. counted teams m \<and> chargedAsLoser m (team_id (team r))) matches))"
    by (simp add: filter_counted t initialStandings_def)
  from fold_facts(5) [OF before after]
  show "pointsFor r = sum_list (map (creditedFor (team_id (team r))) (filter (counted teams) matches))"
    by (simp add: filter_counted_all t initialStandings_def)
  from fold_facts(6) [OF before after]
  show "pointsAgainst r = sum_list (map (creditedAgainst (team_id (team r))) (filter (counted teams) matches))"
    by (simp add: filter_counted_all t initialStandings_def)
  from fold_facts(7) [OF before after]
  show "pointsDifference r = pointsFor r - pointsAgainst r"
    by (simp add: initialStandings_def)
  from fold_facts(8) [OF before after]
  show "points r = sum_list (map (pointsAwarded (team_id (team r))) (filter (counted teams) matches))"
    by (simp add: filter_counted_all t initialStandings_def)
qed

section \<open>Worked examples\<close>

lemma example_standings:
  "calculateStandings [teamA, teamB, teamC] [exampleMatch, pendingMatch]
     = [exampleRecordA, exampleRecordB, initialStandings teamC]"
  by code_simp

lemma orphan_standings_records:
  "calculateStandings [teamA, teamB, teamC] [orphanWinnerMatch]
     = [orphanRecordC,
        \<lparr>team = teamA, played = 1, wins = 0, losses = 1, points = 0,
         pointsFor = 36, pointsAgainst = 15, pointsDifference = 21\<rparr>,
        orphanRecordB]"
  by code_simp

lemma example_counted:
  "counted [teamA, teamB, teamC] exampleMatch" "\<not> counted [teamA, teamB, teamC] pendingMatch"
  "counted [teamA, teamB, teamC] orphanWinnerMatch"
  by code_simp+

theorem calculateStandings_counts_only_witness:
  "status pendingMatch \<noteq> Finished
   \<and> calculateStandings [teamA, teamB, teamC] ([exampleMatch] @ pendingMatch # [])
       = calculateStandings [teamA, teamB, teamC] ([exampleMatch] @ [])
   \<and> calculateStandings [teamA, teamB, teamC] ([exampleMatch] @ pendingMatch # [])
       = [exampleRecordA, exampleRecordB, initialStandings teamC]"
proof -
  have p: "status pendingMatch \<noteq> Finished" by (simp add: pendingMatch_def)
  then have "\<not> inTeams [teamA, teamB, teamC] (team1 pendingMatch)
      \<or> \<not> inTeams [teamA, teamB, teamC] (team2 pendingMatch)
      \<or> status pendingMatch \<noteq> Finished \<or> winner pendingMatch = None"
    by simp
  from calculateStandings_counts_only [OF this, of "[exampleMatch]" "[]"] p example_standings
  show ?thesis by simp
qed

theorem calculateStandings_unknown_winner_skipped_witness:
  "winner strangerWinnerMatch = Some teamD
   \<and> \<not> inTeams [teamA, teamB, teamC] teamD
   \<and> calculateStandings [teamA, teamB, teamC] ([exampleMatch] @ strangerWinnerMatch # [])
       = calculateStandings [teamA, teamB, teamC] ([exampleMatch] @ [])"
proof -
  have w: "winner strangerWinnerMatch = Some teamD" by (simp add: strangerWinnerMatch_def)
  have n: "\<not> inTeams [teamA, teamB, teamC] teamD" by code_simp
  from calculateStandings_unknown_winner_skipped [OF w n, of "[exampleMatch]" "[]"] w n
  show ?thesis by blast
qed

section \<open>Played, won and lost\<close>

lemma charged_both:
  "chargedAsWinner m x \<Longrightarrow> chargedAsLoser m x \<Longrightarrow> team_id (team1 m) = team_id (team2 m)"
  by (cases "winner m") (auto simp: chargedAsWinner_def chargedAsLoser_def loserIdOf_def split: if_splits)

lemma length_filter_either:
  "\<forall>m \<in> set ms. p m \<longrightarrow> \<not> (a m \<and> b m) \<Longrightarrow>
     length (filter (\<lambda>m. p m \<and> (a m \<or> b m)) ms)
       = length (filter (\<lambda>m. p m \<and> a m) ms) + length (filter (\<lambda>m. p m \<and> b m) ms)"
  by (induction ms) auto

text \<open>
  Claim C10 as stated fails for a counted match between two teams of the same
  id: the winner's and the loser's record are one object, charged once as
  winner and once as loser. Team A against a team of the same id: one counted
  match charges the record, and its played is 2.
\<close>

theorem same_id_match_played:
  "calculateStandings [teamA] [sameIdMatch] = [sameIdRecord]
   \<and> played sameIdRecord = 2
   \<and> int (length (filter
         (\<lambda>m. counted [teamA] m
               \<and> (chargedAsWinner m (team_id (team sameIdRecord))
                   \<or> chargedAsLoser m (team_id (team sameIdRecord))))
         [sameIdMatch])) = 1"
proof -
  have "calculateStandings [teamA] [sameIdMatch] = [sameIdRecord]" by code_simp
  moreover have "played sameIdRecord = 2" by (simp add: sameIdRecord_def)
  moreover have "int (length (filter
         (\<lambda>m. counted [teamA] m
               \<and> (chargedAsWinner m (team_id (team sameIdRecord))
                   \<or> chargedAsLoser m (team_id (team sameIdRecord))))
         [sameIdMatch])) = 1" by code_simp
  ultimately show ?thesis by blast
qed

text \<open>
  Claim C10, amended. For every record of the result, wins + losses = played;
  wins is the number of counted matches that charged the record's team as
  winner and losses the number that charged it as loser; and, when no counted
  match is between two teams of the same id, played is the number of counted
  matches that charged the team as winner or loser.
\<close>

theorem calculateStandings_played:
  assumes "r \<in> set (calculateStandings teams matches)"
  shows "wins r + losses r = played r
     \<and> wins r = int (length (filter (\<lambda>m. counted teams m \<and> chargedAsWinner m (team_id (team r))) matches))
     \<and> losses r = int (length (filter (\<lambda>m. counted teams m \<and> chargedAsLoser m (team_id (team r))) matches))
     \<and> ((\<forall>m \<in> set matches. counted teams m \<longrightarrow> team_id (team1 m) \<noteq> team_id (team2 m))
          \<longrightarrow> played r = int (length (filter
                 (\<lambda>m. counted teams m \<and> (chargedAsWinner m (team_id (team r))
                                              \<or> chargedAsLoser m (team_id (team r)))) matches)))"
proof -
  let ?x = "team_id (team r)"
  note f = record_fields [OF assms]
  have sum: "wins r + losses r = played r" using f(1) f(2) f(3) by simp
  have either: "played r = int (length (filter
                 (\<lambda>m. counted teams m \<and> (chargedAsWinner m ?x \<or> chargedAsLoser m ?x)) matches))"
    if d: "\<forall>m \<in> set matches. counted teams m \<longrightarrow> team_id (team1 m) \<noteq> team_id (team2 m)"
  proof -
    from d have "\<forall>m \<in> set matches. counted teams m
        \<longrightarrow> \<not> (chargedAsWinner m ?x \<and> chargedAsLoser m ?x)"
      using charged_both by blast
    from length_filter_either [OF this] f(1) show ?thesis by simp
  qed
  from sum f(2) f(3) either show ?thesis by blast
qed

theorem calculateStandings_played_witness:
  "exampleRecordA \<in> set (calculateStandings [teamA, teamB, teamC] [exampleMatch, pendingMatch])
   \<and> wins exampleRecordA + losses exampleRecordA = played exampleRecordA
   \<and> played exampleRecordA = int (length (filter
        (\<lambda>m. counted [teamA, teamB, teamC] m
              \<and> (chargedAsWinner m (team_id (team exampleRecordA))
                  \<or> chargedAsLoser m (team_id (team exampleRecordA))))
        [exampleMatch, pendingMatch]))
   \<and> played exampleRecordA = 1"
proof -
  have mem: "exampleRecordA \<in> set (calculateStandings [teamA, teamB, teamC] [exampleMatch, pendingMatch])"
    by (simp add: example_standings)
  have d: "\<forall>m \<in> set [exampleMatch, pendingMatch]. counted [teamA, teamB, teamC] m
      \<longrightarrow> team_id (team1 m) \<noteq> team_id (team2 m)"
    by (simp add: exampleMatch_def pendingMatch_def teamA_def teamB_def)
  have one: "played exampleRecordA = 1" by (simp add: exampleRecordA_def)
  from calculateStandings_played [OF mem] d mem one show ?thesis by blast
qed

section \<open>Set points\<close>

lemma credited_as_played:
  assumes "winnerPlayed m"
  shows "creditedFor x m = scoredBy x m" and "creditedAgainst x m = concededBy x m"
proof -
  from assms obtain w where w: "winner m = Some w"
    by (cases "winner m") (auto simp: winnerPlayed_def chargedAsWinner_def)
  from assms w have p: "team_id w = team_id (team1 m) \<or> team_id w = team_id (team2 m)"
    by (auto simp: winnerPlayed_def chargedAsWinner_def)
  show "creditedFor x m = scoredBy x m"
    using p by (auto simp: creditedFor_def scoredBy_def chargedAsWinner_def chargedAsLoser_def
        loserIdOf_def w)
  show "creditedAgainst x m = concededBy x m"
    using p by (auto simp: creditedAgainst_def concededBy_def chargedAsWinner_def chargedAsLoser_def
        loserIdOf_def w)
qed

text \<open>
  Claim C4 as stated fails where a counted match names as winner a team that
  did not play it: with teams A, B, C and the Finished match A-B (18-10, 18-5)
  whose winner is C, the record of C has pointsFor 15 although C scored
  nothing, and the record of B has pointsFor 0 although B scored 15.
\<close>

theorem orphan_winner_set_points:
  "counted [teamA, teamB, teamC] orphanWinnerMatch
   \<and> orphanRecordC \<in> set (calculateStandings [teamA, teamB, teamC] [orphanWinnerMatch])
   \<and> pointsFor orphanRecordC = 15
   \<and> sum_list (map (scoredBy (team_id (team orphanRecordC)))
        (filter (counted [teamA, teamB, teamC]) [orphanWinnerMatch])) = 0
   \<and> orphanRecordB \<in> set (calculateStandings [teamA, teamB, teamC] [orphanWinnerMatch])
   \<and> pointsFor orphanRecordB = 0
   \<and> sum_list (map (scoredBy (team_id (team orphanRecordB)))
        (filter (counted [teamA, teamB, teamC]) [orphanWinnerMatch])) = 15"
proof -
  have "sum_list (map (scoredBy (team_id (team orphanRecordC)))
        (filter (counted [teamA, teamB, teamC]) [orphanWinnerMatch])) = 0"
    by code_simp
  moreover have "sum_list (map (scoredBy (team_id (team orphanRecordB)))
        (filter (counted [teamA, teamB, teamC]) [orphanWinnerMatch])) = 15"
    by code_simp
  moreover have "pointsFor orphanRecordC = 15" "pointsFor orphanRecordB = 0"
    by (simp_all add: orphanRecordC_def orphanRecordB_def)
  ultimately show ?thesis
    by (simp add: orphan_standings_records example_counted)
qed

text \<open>
  Claim C4, amended. When the winner of every counted match is one of its two
  teams (by id), then for every record of the result pointsFor is the sum,
  over the counted matches and over exactly the sets whose two scores are
  both present, of the record's team's set scores, and pointsAgainst the sum
  of its opponents' set scores; a set with a missing score contributes to
  neither; and pointsDifference = pointsFor - pointsAgainst in every record,
  with or without that condition.
\<close>

theorem calculateStandings_set_points:
  assumes "r \<in> set (calculateStandings teams matches)"
  shows "pointsDifference r = pointsFor r - pointsAgainst r
     \<and> ((\<forall>m \<in> set matches. counted teams m \<longrightarrow> winnerPlayed m) \<longrightarrow>
          pointsFor r = sum_list (map (scoredBy (team_id (team r))) (filter (counted teams) matches))
        \<and> pointsAgainst r
            = sum_list (map (concededBy (team_id (team r))) (filter (counted teams) matches)))"
proof (intro conjI impI)
  let ?x = "team_id (team r)"
  note f = record_fields [OF assms]
  show "pointsDifference r = pointsFor r - pointsAgainst r" by (rule f(6))
  assume h: "\<forall>m \<in> set matches. counted teams m \<longrightarrow> winnerPlayed m"
  then have a: "map (creditedFor ?x) (filter (counted teams) matches)
          = map (scoredBy ?x) (filter (counted teams) matches)"
    by (simp add: credited_as_played)
  from h have b: "map (creditedAgainst ?x) (filter (counted teams) matches)
          = map (concededBy ?x) (filter (counted teams) matches)"
    by (simp add: credited_as_played)
  show "pointsFor r = sum_list (map (scoredBy ?x) (filter (counted teams) matches))"
    unfolding f(4) a by (rule refl)
  show "pointsAgainst r = sum_list (map (concededBy ?x) (filter (counted teams) matches))"
    unfolding f(5) b by (rule refl)
qed

theorem calculateStandings_set_points_witness:
  "exampleRecordA \<in> set (calculateStandings [teamA, teamB, teamC] [exampleMatch, pendingMatch])
   \<and> pointsFor exampleRecordA
       = sum_list (map (scoredBy (team_id (team exampleRecordA)))
           (filter (counted [teamA, teamB, teamC]) [exampleMatch, pendingMatch]))
   \<and> pointsAgainst exampleRecordA
       = sum_list (map (concededBy (team_id (team exampleRecordA)))
           (filter (counted [teamA, teamB, teamC]) [exampleMatch, pendingMatch]))
   \<and> pointsFor exampleRecordA = 39 \<and> pointsAgainst exampleRecordA = 33
   \<and> pointsDifference exampleRecordA = 6"
proof -
  have mem: "exampleRecordA \<in> set (calculateStandings [teamA, teamB, teamC] [exampleMatch, pendingMatch])"
    by (simp add: example_standings)
  have h: "\<forall>m \<in> set [exampleMatch, pendingMatch]. counted [teamA, teamB, teamC] m \<longrightarrow> winnerPlayed m"
    by code_simp
  have v: "pointsFor exampleRecordA = 39 \<and> pointsAgainst exampleRecordA = 33
      \<and> pointsDifference exampleRecordA = 6"
    by (simp add: exampleRecordA_def)
  from calculateStandings_set_points [OF mem] h mem v show ?thesis by blast
qed
section \<open>League points\<close>

lemma lookup_fields:
  assumes "mapGet (standingsMapAfter teams matches) x = Some r"
  shows "played r
          = int (length (filter (\<lambda>m. counted teams m \<and> chargedAsWinner m x) matches))
          + int (length (filter (\<lambda>m. counted teams m \<and> chargedAsLoser m x) matches))"
    and "wins r = int (length (filter (\<lambda>m. counted teams m \<and> chargedAsWinner m x) matches))"
    and "losses r = int (length (filter (\<lambda>m. counted teams m \<and> chargedAsLoser m x) matches))"
    and "points r = sum_list (map (pointsAwarded x) (filter (counted teams) matches))"
proof -
  have "map fst (newStandingsMap teams) = map fst (standingsMapAfter teams matches)"
    by (simp add: standingsMapAfter_def keys_fold_processMatch)
  from lookup_defined [OF this assms]
  obtain r0 where r0: "mapGet (newStandingsMap teams) x = Some r0" by blast
  from newStandingsMap_entry [OF r0]
  obtain t where z: "r0 = initialStandings t" by blast
  from assms have after: "mapGet (fold processMatch (relevantMatches teams matches)
      (newStandingsMap teams)) x = Some r"
    by (simp add: standingsMapAfter_def)
  from fold_facts(2) [OF r0 after]
  show "played r
          = int (length (filter (\<lambda>m. counted teams m \<and> chargedAsWinner m x) matches))
          + int (length (filter (\<lambda>m. counted teams m \<and> chargedAsLoser m x) matches))"
    by (simp add: filter_counted z initialStandings_def)
  from fold_facts(3) [OF r0 after]
  show "wins r = int (length (filter (\<lambda>m. counted teams m \<and> chargedAsWinner m x) matches))"
    by (simp add: filter_counted z initialStandings_def)
  from fold_facts(4) [OF r0 after]
  show "losses r = int (length (filter (\<lambda>m. counted teams m \<and> chargedAsLoser m x) matches))"
    by (simp add: filter_counted z initialStandings_def)
  from fold_facts(8) [OF r0 after]
  show "points r = sum_list (map (pointsAwarded x) (filter (counted teams) matches))"
    by (simp add: filter_counted_all z initialStandings_def)
qed

lemma lookup_team:
  assumes "inTeams teams t"
  shows "\<exists>r. mapGet (standingsMapAfter teams matches) (team_id t) = Some r"
proof -
  from assms have "team_id t \<in> fst ` set (standingsMapAfter teams matches)"
    by (simp add: keys_standingsMapAfter inTeams_iff)
  then have "mapGet (standingsMapAfter teams matches) (team_id t) \<noteq> None"
    by (simp add: mapGet_None)
  then show ?thesis by (cases "mapGet (standingsMapAfter teams matches) (team_id t)") simp_all
qed

lemma lookup_id:
  assumes "x \<in> team_id ` set teams"
  shows "\<exists>r. mapGet (standingsMapAfter teams matches) x = Some r"
proof -
  from assms obtain t where "t \<in> set teams" "x = team_id t" by blast
  then have "inTeams teams t" by (auto simp: inTeams_iff)
  from lookup_team [OF this, of matches] \<open>x = team_id t\<close> show ?thesis by simp
qed

lemma points_awarded_in_map:
  assumes "counted teams m" and "winner m = Some w"
    and "team_id w \<noteq> loserIdOf m (team_id w)"
  shows "\<exists>rw rl rw' rl'.
       mapGet (standingsMapAfter teams (ms1 @ ms2)) (team_id w) = Some rw
     \<and> mapGet (standingsMapAfter teams (ms1 @ ms2)) (loserIdOf m (team_id w)) = Some rl
     \<and> mapGet (standingsMapAfter teams (ms1 @ m # ms2)) (team_id w) = Some rw'
     \<and> mapGet (standingsMapAfter teams (ms1 @ m # ms2)) (loserIdOf m (team_id w)) = Some rl'
     \<and> wins rw' = wins rw + 1 \<and> played rw' = played rw + 1 \<and> losses rw' = losses rw
     \<and> losses rl' = losses rl + 1 \<and> played rl' = played rl + 1 \<and> wins rl' = wins rl
     \<and> (setTally m = (2, 0) \<longrightarrow> points rw' = points rw + 3 \<and> points rl' = points rl)
     \<and> (setTally m = (2, 1) \<longrightarrow> points rw' = points rw + 2 \<and> points rl' = points rl + 1)
     \<and> (setTally m \<noteq> (2, 0) \<and> setTally m \<noteq> (2, 1)
          \<longrightarrow> points rw' = points rw \<and> points rl' = points rl)"
proof -
  let ?W = "team_id w" and ?L = "loserIdOf m (team_id w)"
  from assms(1,2) have wl: "?W \<in> team_id ` set teams" "?L \<in> team_id ` set teams"
    using loserIdOf_cases [of m ?W] by (auto simp: counted_def inTeams_iff)
  from lookup_id [OF wl(1), of "ms1 @ ms2"] lookup_id [OF wl(2), of "ms1 @ ms2"]
    lookup_id [OF wl(1), of "ms1 @ m # ms2"] lookup_id [OF wl(2), of "ms1 @ m # ms2"]
  obtain rw rl rw' rl' where
    g: "mapGet (standingsMapAfter teams (ms1 @ ms2)) ?W = Some rw"
      "mapGet (standingsMapAfter teams (ms1 @ ms2)) ?L = Some rl"
      "mapGet (standingsMapAfter teams (ms1 @ m # ms2)) ?W = Some rw'"
      "mapGet (standingsMapAfter teams (ms1 @ m # ms2)) ?L = Some rl'"
    by blast
  have cw: "chargedAsWinner m ?W" "\<not> chargedAsWinner m ?L"
    using assms(2,3) by (simp_all add: chargedAsWinner_def)
  have cl: "chargedAsLoser m ?L" "\<not> chargedAsLoser m ?W"
    using assms(2,3) by (auto simp: chargedAsLoser_def)
  have aw: "pointsAwarded ?W m = winnerAward m" "pointsAwarded ?L m = loserAward m"
    using cw cl by (simp_all add: pointsAwarded_def)
  note w0 = lookup_fields [OF g(1)] and l0 = lookup_fields [OF g(2)]
    and w1 = lookup_fields [OF g(3)] and l1 = lookup_fields [OF g(4)]
  have "wins rw' = wins rw + 1" using w0(2) w1(2) assms(1) cw by simp
  moreover have "played rw' = played rw + 1" using w0(1) w1(1) assms(1) cw cl by simp
  moreover have "losses rw' = losses rw" using w0(3) w1(3) assms(1) cl by simp
  moreover have "losses rl' = losses rl + 1" using l0(3) l1(3) assms(1) cl by simp
  moreover have "played rl' = played rl + 1" using l0(1) l1(1) assms(1) cw cl by simp
  moreover have "wins rl' = wins rl" using l0(2) l1(2) assms(1) cw by simp
  moreover have pw: "points rw' = points rw + winnerAward m"
    using w0(4) w1(4) assms(1) aw by simp
  moreover have pl: "points rl' = points rl + loserAward m"
    using l0(4) l1(4) assms(1) aw by simp
  moreover have "setTally m = (2, 0) \<longrightarrow> points rw' = points rw + 3 \<and> points rl' = points rl"
    using pw pl by (simp add: winnerAward_def loserAward_def)
  moreover have "setTally m = (2, 1) \<longrightarrow> points rw' = points rw + 2 \<and> points rl' = points rl + 1"
    using pw pl by (simp add: winnerAward_def loserAward_def)
  moreover have "setTally m \<noteq> (2, 0) \<and> setTally m \<noteq> (2, 1)
          \<longrightarrow> points rw' = points rw \<and> points rl' = points rl"
    using pw pl by (simp add: winnerAward_def loserAward_def)
  ultimately show ?thesis using g by blast
qed

lemma lookup_key:
  assumes "mapGet (standingsMapAfter teams matches) x = Some r"
  shows "team_id (team r) = x"
proof -
  have "map fst (newStandingsMap teams) = map fst (standingsMapAfter teams matches)"
    by (simp add: standingsMapAfter_def keys_fold_processMatch)
  from lookup_defined [OF this assms]
  obtain r0 where r0: "mapGet (newStandingsMap teams) x = Some r0" by blast
  from newStandingsMap_entry [OF r0]
  obtain t where t: "team_id t = x" "r0 = initialStandings t" by blast
  from assms have after: "mapGet (fold processMatch (relevantMatches teams matches)
      (newStandingsMap teams)) x = Some r"
    by (simp add: standingsMapAfter_def)
  from fold_facts(1) [OF r0 after] t show ?thesis
    by (simp add: initialStandings_def)
qed

lemma find_unique:
  "r \<in> set xs \<Longrightarrow> p r \<Longrightarrow> (\<And>r'. r' \<in> set xs \<Longrightarrow> p r' \<Longrightarrow> r' = r) \<Longrightarrow> find p xs = Some r"
proof (induction xs)
  case Nil
  then show ?case by simp
next
  case (Cons y ys)
  show ?case
  proof (cases "p y")
    case True
    with Cons.prems(3) [of y] show ?thesis by simp
  next
    case False
    with Cons.prems(1,2) have "r \<in> set ys" by auto
    from Cons.IH [OF this Cons.prems(2)] Cons.prems(3) False show ?thesis by simp
  qed
qed

lemma recordOf_result:
  assumes "mapGet (standingsMapAfter teams matches) x = Some r"
  shows "recordOf (calculateStandings teams matches) x = Some r"
  unfolding recordOf_def
proof (rule find_unique)
  from assms have "(x, r) \<in> set (standingsMapAfter teams matches)"
    by (simp add: mapGet_def map_of_SomeD)
  then have "r \<in> snd ` set (standingsMapAfter teams matches)" by force
  then show "r \<in> set (calculateStandings teams matches)"
    by (simp add: calculateStandings_def set_sortBy)
  show "team_id (team r) = x" by (rule lookup_key [OF assms])
  fix r'
  assume m: "r' \<in> set (calculateStandings teams matches)" and k: "team_id (team r') = x"
  from result_record [OF m] obtain t :: Team where
    g: "mapGet (standingsMapAfter teams matches) (team_id t) = Some r'" by blast
  from lookup_key [OF g] k have "team_id t = x" by simp
  with g assms show "r' = r" by simp
qed

text \<open>
  Claim C3 as stated fails for a counted match whose winner and loser have
  the same id: the two are one record, which takes the winner's and the
  loser's points. Team A against a team of the same id, won by A 2 sets to 1:
  the record has 3 points more than without the match, not 2 and not 1.
\<close>

theorem same_id_match_points:
  "counted [teamA] sameIdMatch
   \<and> status sameIdMatch = Finished
   \<and> winner sameIdMatch = Some teamA
   \<and> loserIdOf sameIdMatch (team_id teamA) = team_id teamA
   \<and> setTally sameIdMatch = (2, 1)
   \<and> recordOf (calculateStandings [teamA] []) (team_id teamA) = Some (initialStandings teamA)
   \<and> recordOf (calculateStandings [teamA] [sameIdMatch]) (team_id teamA) = Some sameIdRecord
   \<and> points sameIdRecord = points (initialStandings teamA) + 3"
proof -
  have "counted [teamA] sameIdMatch" by code_simp
  moreover have "status sameIdMatch = Finished" by code_simp
  moreover have "winner sameIdMatch = Some teamA" by code_simp
  moreover have "loserIdOf sameIdMatch (team_id teamA) = team_id teamA" by code_simp
  moreover have "setTally sameIdMatch = (2, 1)" by code_simp
  moreover have "recordOf (calculateStandings [teamA] []) (team_id teamA)
      = Some (initialStandings teamA)" by code_simp
  moreover have "recordOf (calculateStandings [teamA] [sameIdMatch]) (team_id teamA)
      = Some sameIdRecord" by code_simp
  moreover have "points sameIdRecord = points (initialStandings teamA) + 3"
    by (simp add: sameIdRecord_def initialStandings_def)
  ultimately show ?thesis by blast
qed

text \<open>
  Claim C3, amended. Take a Finished match with a winner that
  calculateStandings counts (both teams and the winner have ids in the team
  list) and whose winner's id differs from its loser's id, anywhere in the
  match list, and compare the tables calculateStandings returns with and
  without that match. Both tables hold a record for the winner and one for
  the loser. With the match, the winner's record has one more win and the
  loser's one more loss (each one more played); if the set tally is 2 sets to
  0 the winner's points are higher by exactly 3 and the loser's unchanged; if
  it is 2 sets to 1 the winner's are higher by exactly 2 and the loser's by
  exactly 1; with any other tally neither record's points differ. The tally
  is the larger and the smaller of the two sides' set counts over the sets
  with both scores present.
\<close>

theorem calculateStandings_points_per_match:
  assumes "counted teams m" and "winner m = Some w"
    and "team_id w \<noteq> loserIdOf m (team_id w)"
  shows "\<exists>rw rl rw' rl'.
       recordOf (calculateStandings teams (ms1 @ ms2)) (team_id w) = Some rw
     \<and> recordOf (calculateStandings teams (ms1 @ ms2)) (loserIdOf m (team_id w)) = Some rl
     \<and> recordOf (calculateStandings teams (ms1 @ m # ms2)) (team_id w) = Some rw'
     \<and> recordOf (calculateStandings teams (ms1 @ m # ms2)) (loserIdOf m (team_id w)) = Some rl'
     \<and> wins rw' = wins rw + 1 \<and> played rw' = played rw + 1 \<and> losses rw' = losses rw
     \<and> losses rl' = losses rl + 1 \<and> played rl' = played rl + 1 \<and> wins rl' = wins rl
     \<and> (setTally m = (2, 0) \<longrightarrow> points rw' = points rw + 3 \<and> points rl' = points rl)
     \<and> (setTally m = (2, 1) \<longrightarrow> points rw' = points rw + 2 \<and> points rl' = points rl + 1)
     \<and> (setTally m \<noteq> (2, 0) \<and> setTally m \<noteq> (2, 1)
          \<longrightarrow> points rw' = points rw \<and> points rl' = points rl)"
proof -
  from points_awarded_in_map [OF assms, of ms1 ms2]
  obtain rw rl rw' rl' where
    g: "mapGet (standingsMapAfter teams (ms1 @ ms2)) (team_id w) = Some rw"
      "mapGet (standingsMapAfter teams (ms1 @ ms2)) (loserIdOf m (team_id w)) = Some rl"
      "mapGet (standingsMapAfter teams (ms1 @ m # ms2)) (team_id w) = Some rw'"
      "mapGet (standingsMapAfter teams (ms1 @ m # ms2)) (loserIdOf m (team_id w)) = Some rl'"
    and f: "wins rw' = wins rw + 1 \<and> played rw' = played rw + 1 \<and> losses rw' = losses rw
     \<and> losses rl' = losses rl + 1 \<and> played rl' = played rl + 1 \<and> wins rl' = wins rl
     \<and> (setTally m = (2, 0) \<longrightarrow> points rw' = points rw + 3 \<and> points rl' = points rl)
     \<and> (setTally m = (2, 1) \<longrightarrow> points rw' = points rw + 2 \<and> points rl' = points rl + 1)
     \<and> (setTally m \<noteq> (2, 0) \<and> setTally m \<noteq> (2, 1)
          \<longrightarrow> points rw' = points rw \<and> points rl' = points rl)"
    by (elim exE conjE) (rule that, assumption+, intro conjI, assumption+)
  from recordOf_result [OF g(1)] recordOf_result [OF g(2)]
    recordOf_result [OF g(3)] recordOf_result [OF g(4)] f
  show ?thesis by (intro exI conjI) (assumption, assumption, assumption, assumption, (elim conjE, assumption)+)
qed

theorem calculateStandings_points_per_match_witness:
  "counted [teamA, teamB, teamC] exampleMatch
   \<and> winner exampleMatch = Some teamA
   \<and> team_id teamA \<noteq> loserIdOf exampleMatch (team_id teamA)
   \<and> setTally exampleMatch = (2, 1)
   \<and> (\<exists>rw rl rw' rl'.
         recordOf (calculateStandings [teamA, teamB, teamC] ([] @ [])) (team_id teamA) = Some rw
       \<and> recordOf (calculateStandings [teamA, teamB, teamC] ([] @ []))
            (loserIdOf exampleMatch (team_id teamA)) = Some rl
       \<and> recordOf (calculateStandings [teamA, teamB, teamC] ([] @ exampleMatch # []))
            (team_id teamA) = Some rw'
       \<and> recordOf (calculateStandings [teamA, teamB, teamC] ([] @ exampleMatch # []))
            (loserIdOf exampleMatch (team_id teamA)) = Some rl'
       \<and> points rw' = points rw + 2 \<and> points rl' = points rl + 1
       \<and> wins rw' = wins rw + 1 \<and> losses rl' = losses rl + 1)
   \<and> recordOf (calculateStandings [teamA, teamB, teamC] ([] @ exampleMatch # [])) (team_id teamA)
       = Some exampleRecordA
   \<and> points exampleRecordA = 2"
proof -
  have c: "counted [teamA, teamB, teamC] exampleMatch" by (rule example_counted(1))
  have w: "winner exampleMatch = Some teamA" by (simp add: exampleMatch_def)
  have d: "team_id teamA \<noteq> loserIdOf exampleMatch (team_id teamA)" by code_simp
  have t: "setTally exampleMatch = (2, 1)" by code_simp
  have v: "recordOf (calculateStandings [teamA, teamB, teamC] ([] @ exampleMatch # [])) (team_id teamA)
       = Some exampleRecordA" by code_simp
  have p: "points exampleRecordA = 2" by (simp add: exampleRecordA_def)
  from calculateStandings_points_per_match [OF c w d, of "[]" "[]"] t
  have "\<exists>rw rl rw' rl'.
         recordOf (calculateStandings [teamA, teamB, teamC] ([] @ [])) (team_id teamA) = Some rw
       \<and> recordOf (calculateStandings [teamA, teamB, teamC] ([] @ []))
            (loserIdOf exampleMatch (team_id teamA)) = Some rl
       \<and> recordOf (calculateStandings [teamA, teamB, teamC] ([] @ exampleMatch # []))
            (team_id teamA) = Some rw'
       \<and> recordOf (calculateStandings [teamA, teamB, teamC] ([] @ exampleMatch # []))
            (loserIdOf exampleMatch (team_id teamA)) = Some rl'
       \<and> points rw' = points rw + 2 \<and> points rl' = points rl + 1
       \<and> wins rw' = wins rw + 1 \<and> losses rl' = losses rl + 1"
    by (elim exE conjE) (intro exI conjI, assumption+, simp_all)
  with c w d t v p show ?thesis by blast
qed

end
